theory Spec2Isabelle
  imports Complex_Main
begin

section \<open>Text primitives of the host language\<close>

text \<open>
  The bridge (\<^verbatim>\<open>src/http-bridge.ts\<close>) works on JavaScript strings. They are modelled as
  \<^typ>\<open>string\<close>: a character stands for a code unit below 256, and texts with other code
  units are outside the model. The line terminator is the character \<^verbatim>\<open>0x0A\<close>. The white
  space removed by \<^verbatim>\<open>String.prototype.trim\<close> is, within that range, TAB, LF, VT, FF, CR,
  SPACE and NBSP.
\<close>

definition isWhiteSpace :: "char \<Rightarrow> bool" where
  "isWhiteSpace c =
     (c = CHR 0x09 \<or> c = CHR 0x0A \<or> c = CHR 0x0B \<or> c = CHR 0x0C \<or> c = CHR 0x0D
      \<or> c = CHR 0x20 \<or> c = CHR 0xA0)"

definition trim :: "string \<Rightarrow> string" where
  "trim s = rev (dropWhile isWhiteSpace (rev (dropWhile isWhiteSpace s)))"

text \<open>\<^verbatim>\<open>s.split('\n')\<close>: the segments between line terminators; never the empty array.\<close>

fun split_nl :: "string \<Rightarrow> string list" where
  "split_nl [] = [[]]"
| "split_nl (c # cs) =
     (if c = CHR 0x0A then [] # split_nl cs
      else (case split_nl cs of
              [] \<Rightarrow> [[c]]
            | l # ls \<Rightarrow> (c # l) # ls))"

definition startsWith :: "string \<Rightarrow> string \<Rightarrow> bool" where
  "startsWith s p = (take (length p) s = p)"

definition slice :: "nat \<Rightarrow> string \<Rightarrow> string" where
  "slice n s = drop n s"

fun includes_str :: "string \<Rightarrow> string \<Rightarrow> bool" where
  "includes_str [] p = (p = [])"
| "includes_str (c # cs) p = (startsWith (c # cs) p \<or> includes_str cs p)"

text \<open>\<^verbatim>\<open>xs.pop()\<close>: the last element (\<^verbatim>\<open>undefined\<close> on the empty array) and the rest.\<close>

definition pop :: "'a list \<Rightarrow> 'a option \<times> 'a list" where
  "pop xs = (if xs = [] then (None, []) else (Some (last xs), butlast xs))"

text \<open>\<^verbatim>\<open>x || ''\<close> on an optional string: \<^verbatim>\<open>undefined\<close> and the empty string give \<^verbatim>\<open>''\<close>.\<close>

definition or_empty :: "string option \<Rightarrow> string" where
  "or_empty x = (case x of None \<Rightarrow> [] | Some s \<Rightarrow> (if s = [] then [] else s))"

section \<open>JSON values\<close>

text \<open>
  The values \<^verbatim>\<open>JSON.parse\<close> returns. A number is the value of the double that the
  parser produced, \<^verbatim>\<open>-0\<close> being identified with \<^verbatim>\<open>0\<close> (both are falsy and both are
  serialised as \<^verbatim>\<open>0\<close>); the infinities, which the parser returns for literals beyond the
  range of a double, are not represented. \<open>truthy\<close> is the language's conversion to a
  boolean, which \<^verbatim>\<open>if (response)\<close> applies.
\<close>

datatype json =
    JNull
  | JBool bool
  | JNumber rat
  | JString string
  | JArray "json list"
  | JObject "(string \<times> json) list"

fun truthy :: "json \<Rightarrow> bool" where
  "truthy JNull = False"
| "truthy (JBool b) = b"
| "truthy (JNumber n) = (n \<noteq> 0)"
| "truthy (JString s) = (s \<noteq> [])"
| "truthy (JArray xs) = True"
| "truthy (JObject kvs) = True"

text \<open>
  The built-ins the bridge calls are parameters of the model: \<open>JSON_parse\<close> returns
  \<open>Inl msg\<close> where \<^verbatim>\<open>JSON.parse\<close> throws a \<^verbatim>\<open>SyntaxError\<close> with message \<open>msg\<close>;
  \<open>URL_accepts u\<close> holds where \<^verbatim>\<open>new URL(u)\<close> returns and fails where it throws;
  \<open>env_MCP_URL\<close> is the environment variable \<^verbatim>\<open>MCP_URL\<close>.
\<close>

record runtime =
  JSON_parse :: "string \<Rightarrow> string + json"
  JSON_stringify :: "json \<Rightarrow> string"
  URL_accepts :: "string \<Rightarrow> bool"
  env_MCP_URL :: "string option"

definition MCP_URL :: "runtime \<Rightarrow> string" where
  "MCP_URL rt =
     (case env_MCP_URL rt of
        None \<Rightarrow> ''https://archon.technology/mcp''
      | Some u \<Rightarrow> (if u = [] then ''https://archon.technology/mcp'' else u))"

section \<open>Response decoding\<close>

text \<open>The loop of \<^verbatim>\<open>parseSSE\<close>, with \<open>events\<close> the array built so far.\<close>

fun parseSSE_loop :: "runtime \<Rightarrow> json list \<Rightarrow> string list \<Rightarrow> json list" where
  "parseSSE_loop rt events [] = events"
| "parseSSE_loop rt events (line # rest) =
     parseSSE_loop rt
       (if startsWith line ''data: '' then
          (case JSON_parse rt (slice 6 line) of
             Inr v \<Rightarrow> events @ [v]
           | Inl _ \<Rightarrow> events)
        else events)
       rest"

definition parseSSE :: "runtime \<Rightarrow> string \<Rightarrow> json list" where
  "parseSSE rt data = parseSSE_loop rt [] (split_nl data)"

text \<open>
  What the \<^verbatim>\<open>'end'\<close> handler of a response resolves the call with, from the response's
  content type and its whole body (\<^verbatim>\<open>sendRequest\<close>, lines 70 to 83).
\<close>

definition decode :: "runtime \<Rightarrow> string \<Rightarrow> string \<Rightarrow> json list" where
  "decode rt contentType body =
     (if trim body = [] then []
      else if includes_str contentType ''text/event-stream'' then parseSSE rt body
      else (case JSON_parse rt body of Inr v \<Rightarrow> [v] | Inl _ \<Rightarrow> []))"

section \<open>The state of the bridge\<close>

text \<open>
  An HTTP call made by \<^verbatim>\<open>sendRequest\<close>, as the program sees it: the headers and the body
  it sent, and how far the call has come. While the promise of the call is not settled:
  \<open>Awaiting\<close>, issued and no response yet; \<open>Receiving ct body\<close>, the response callback
  has run, \<open>ct\<close> and \<open>body\<close> being its local variables \<^verbatim>\<open>contentType\<close> and
  \<^verbatim>\<open>body\<close>. Once the promise is settled, by \<^verbatim>\<open>resolve\<close> or by \<^verbatim>\<open>reject\<close>:
  \<open>Completed r\<close>, where \<open>r\<close> tells what the listeners of the response can still do:
  \<open>Unanswered\<close>, the response callback has not run, so there are none;
  \<open>Streaming\<close>, they are attached and the response has not ended; \<open>Ended\<close>, the
  response has ended. The listener of \<^verbatim>\<open>'error'\<close> stays attached to the request in every
  phase. \<open>closed\<close> is set when the runtime is done with the call: it delivers no event
  for the call after that, and the call no longer keeps the process alive.
\<close>

datatype stream = Unanswered | Streaming | Ended

datatype phase = Awaiting | Receiving string string | Completed stream

record call =
  req_headers :: "(string \<times> string) list"
  req_body :: string
  phase :: phase
  closed :: bool

text \<open>
  The module's variables (\<^verbatim>\<open>sessionId\<close>, \<^verbatim>\<open>pendingRequests\<close>, \<^verbatim>\<open>stdinClosed\<close>,
  \<^verbatim>\<open>buffer\<close>), the calls made so far in the order of their issue, what has been written
  to the two output streams, and the exit status once the process has ended.
\<close>

record bridge =
  sessionId :: "string option"
  pendingRequests :: int
  stdinClosed :: bool
  buffer :: string
  calls :: "call list"
  stdout :: "string list"
  stderr :: "string list"
  exited :: "int option"

text \<open>
  The top level of the module. \<^verbatim>\<open>new URL(MCP_URL)\<close> (line 11) throws when it rejects the
  text; nothing catches the exception, so the process ends with status 1 before the banner
  is written and before any listener is attached (what the runtime itself prints about the
  exception is not recorded): this is \<open>crashed\<close>. Otherwise the variables get their
  initial values, the banner is written and the listeners of the input stream are attached:
  this is \<open>init\<close>, the state in which the module waits for its first event.
\<close>

definition init :: "runtime \<Rightarrow> bridge" where
  "init rt =
     \<lparr> sessionId = None, pendingRequests = 0, stdinClosed = False, buffer = [],
       calls = [], stdout = [],
       stderr = [''Archon MCP Bridge - '' @ MCP_URL rt @ [CHR 0x0A]],
       exited = None \<rparr>"

definition crashed :: bridge where
  "crashed =
     \<lparr> sessionId = None, pendingRequests = 0, stdinClosed = False, buffer = [],
       calls = [], stdout = [], stderr = [], exited = Some 1 \<rparr>"

definition start :: "runtime \<Rightarrow> bridge" where
  "start rt = (if URL_accepts rt (MCP_URL rt) then init rt else crashed)"

section \<open>The functions of the bridge\<close>

definition checkExit :: "bridge \<Rightarrow> bridge" where
  "checkExit s =
     (if stdinClosed s \<and> pendingRequests s = 0 then s\<lparr>exited := Some 0\<rparr> else s)"

text \<open>
  \<^verbatim>\<open>sendRequest\<close> up to the point where it returns its promise: the headers are built
  from the current \<^verbatim>\<open>sessionId\<close>, the counter is incremented, the request is written.
\<close>

definition request_headers :: "string option \<Rightarrow> (string \<times> string) list" where
  "request_headers sid =
     [(''Content-Type'', ''application/json''),
      (''Accept'', ''application/json, text/event-stream'')]
     @ (case sid of
          None \<Rightarrow> []
        | Some v \<Rightarrow> (if v \<noteq> [] then [(''Mcp-Session-Id'', v)] else []))"

definition sendRequest :: "runtime \<Rightarrow> bridge \<Rightarrow> json \<Rightarrow> bridge" where
  "sendRequest rt s data =
     (let headers = request_headers (sessionId s);
          s1 = s\<lparr>pendingRequests := pendingRequests s + 1\<rparr>
      in s1\<lparr>calls := calls s1 @
            [\<lparr> req_headers = headers, req_body = JSON_stringify rt data,
               phase = Awaiting, closed = False \<rparr>]\<rparr>)"

text \<open>
  \<^verbatim>\<open>processLine\<close> up to its \<^verbatim>\<open>await\<close>. A parse failure runs \<^verbatim>\<open>catch\<close> and
  \<^verbatim>\<open>finally\<close> at once; a request that was sent leaves the rest of the function
  suspended until the call settles. Nothing runs once the process has exited.
\<close>

definition processLine :: "runtime \<Rightarrow> bridge \<Rightarrow> string \<Rightarrow> bridge" where
  "processLine rt s line =
     (if exited s \<noteq> None then s
      else if trim line = [] then s
      else (case JSON_parse rt line of
              Inl errorMsg \<Rightarrow>
                checkExit (s\<lparr>stderr := stderr s @ [''Error: '' @ errorMsg @ [CHR 0x0A]]\<rparr>)
            | Inr request \<Rightarrow> sendRequest rt s request))"

text \<open>The loop over \<^verbatim>\<open>responses\<close> after the \<^verbatim>\<open>await\<close>.\<close>

fun write_responses :: "runtime \<Rightarrow> bridge \<Rightarrow> json list \<Rightarrow> bridge" where
  "write_responses rt s [] = s"
| "write_responses rt s (response # rest) =
     write_responses rt
       (if truthy response
        then s\<lparr>stdout := stdout s @ [JSON_stringify rt response @ [CHR 0x0A]]\<rparr>
        else s)
       rest"

text \<open>The rest of \<^verbatim>\<open>processLine\<close>, when the promise resolves and when it rejects.\<close>

definition resume_resolved :: "runtime \<Rightarrow> bridge \<Rightarrow> json list \<Rightarrow> bridge" where
  "resume_resolved rt s responses = checkExit (write_responses rt s responses)"

definition resume_rejected :: "bridge \<Rightarrow> string \<Rightarrow> bridge" where
  "resume_rejected s errorMsg =
     checkExit (s\<lparr>stderr := stderr s @ [''Error: '' @ errorMsg @ [CHR 0x0A]]\<rparr>)"

section \<open>Event handlers\<close>

text \<open>The listener of \<^verbatim>\<open>'data'\<close> on the input stream.\<close>

definition on_stdin_data :: "runtime \<Rightarrow> bridge \<Rightarrow> string \<Rightarrow> bridge" where
  "on_stdin_data rt s chunk =
     (let (popped, lines) = pop (split_nl (buffer s @ chunk))
      in foldl (processLine rt) (s\<lparr>buffer := or_empty popped\<rparr>) lines)"

text \<open>The listener of \<^verbatim>\<open>'end'\<close> on the input stream.\<close>

definition on_stdin_end :: "runtime \<Rightarrow> bridge \<Rightarrow> bridge" where
  "on_stdin_end rt s =
     (let s1 = (if trim (buffer s) \<noteq> [] then processLine rt s (buffer s) else s)
      in if exited s1 \<noteq> None then s1 else checkExit (s1\<lparr>stdinClosed := True\<rparr>))"

text \<open>
  The response callback of call \<open>i\<close>, with the values of the response headers
  \<^verbatim>\<open>mcp-session-id\<close> and \<^verbatim>\<open>content-type\<close> (absent: \<open>None\<close>). The runtime gives each of
  these two headers as one string, so the test \<^verbatim>\<open>typeof newSessionId === 'string'\<close> holds
  whenever the header is there; \<^verbatim>\<open>newSessionId && ...\<close> fails for the empty string. The
  callback sets \<^verbatim>\<open>contentType\<close> and \<^verbatim>\<open>body\<close> and attaches the listeners of the response,
  whether the promise is settled or not.
\<close>

fun answered :: "string \<Rightarrow> phase \<Rightarrow> phase" where
  "answered ct Awaiting = Receiving ct []"
| "answered ct (Receiving ct' body) = Receiving ct' body"
| "answered ct (Completed r) = Completed Streaming"

definition on_response :: "bridge \<Rightarrow> nat \<Rightarrow> string option \<Rightarrow> string option \<Rightarrow> bridge" where
  "on_response s i newSessionId contentTypeHeader =
     (let s1 = (case newSessionId of
                  None \<Rightarrow> s
                | Some v \<Rightarrow> (if v \<noteq> [] then s\<lparr>sessionId := Some v\<rparr> else s))
      in s1\<lparr>calls := (calls s1)[i := (calls s1 ! i)
              \<lparr>phase := answered (or_empty contentTypeHeader) (phase (calls s1 ! i))\<rparr>]\<rparr>)"

text \<open>
  The listener of \<^verbatim>\<open>'data'\<close> on the response of call \<open>i\<close>. Once the promise is settled
  the value of \<^verbatim>\<open>body\<close> has no effect any more and is not kept.
\<close>

definition on_res_data :: "bridge \<Rightarrow> nat \<Rightarrow> string \<Rightarrow> bridge" where
  "on_res_data s i chunk =
     (case phase (calls s ! i) of
        Receiving ct body \<Rightarrow>
          s\<lparr>calls := (calls s)[i := (calls s ! i)\<lparr>phase := Receiving ct (body @ chunk)\<rparr>]\<rparr>
      | _ \<Rightarrow> s)"

text \<open>
  The listener of \<^verbatim>\<open>'end'\<close> on the response of call \<open>i\<close> (lines 67 to 84). It decrements
  the counter whenever it runs. While the promise is not settled, \<^verbatim>\<open>resolve\<close> settles it
  and the rest of \<^verbatim>\<open>processLine\<close> runs. After an error has rejected the promise,
  \<^verbatim>\<open>resolve\<close> does nothing: the counter is decremented a second time for the call, and
  neither output nor \<^verbatim>\<open>checkExit\<close> follows.
\<close>

definition on_res_end :: "runtime \<Rightarrow> bridge \<Rightarrow> nat \<Rightarrow> bridge" where
  "on_res_end rt s i =
     (case phase (calls s ! i) of
        Receiving ct body \<Rightarrow>
          (let s1 = s\<lparr>pendingRequests := pendingRequests s - 1\<rparr>;
               s2 = s1\<lparr>calls := (calls s1)[i := (calls s1 ! i)\<lparr>phase := Completed Ended\<rparr>]\<rparr>
           in resume_resolved rt s2 (decode rt ct body))
      | Completed Streaming \<Rightarrow>
          (let s1 = s\<lparr>pendingRequests := pendingRequests s - 1\<rparr>
           in s1\<lparr>calls := (calls s1)[i := (calls s1 ! i)\<lparr>phase := Completed Ended\<rparr>]\<rparr>)
      | _ \<Rightarrow> s)"

text \<open>
  The listener of \<^verbatim>\<open>'error'\<close> on the request of call \<open>i\<close>, with the error's message (lines
  87 to 90). It decrements the counter whenever it runs. While the promise is not settled,
  \<^verbatim>\<open>reject\<close> settles it and \<^verbatim>\<open>catch\<close> and \<^verbatim>\<open>finally\<close> of \<^verbatim>\<open>processLine\<close> run; on a
  settled promise \<^verbatim>\<open>reject\<close> does nothing and only the decrement remains.
\<close>

definition on_req_error :: "bridge \<Rightarrow> nat \<Rightarrow> string \<Rightarrow> bridge" where
  "on_req_error s i errorMsg =
     (let s1 = s\<lparr>pendingRequests := pendingRequests s - 1\<rparr>
      in case phase (calls s ! i) of
           Awaiting \<Rightarrow>
             resume_rejected
               (s1\<lparr>calls := (calls s1)[i := (calls s1 ! i)\<lparr>phase := Completed Unanswered\<rparr>]\<rparr>)
               errorMsg
         | Receiving ct body \<Rightarrow>
             resume_rejected
               (s1\<lparr>calls := (calls s1)[i := (calls s1 ! i)\<lparr>phase := Completed Streaming\<rparr>]\<rparr>)
               errorMsg
         | Completed r \<Rightarrow> s1)"

text \<open>
  The runtime closes call \<open>i\<close>. The program has no listener for this (nor for an aborted
  response, which is a response closed before its end), so none of its variables changes.
\<close>

definition on_closed :: "bridge \<Rightarrow> nat \<Rightarrow> bridge" where
  "on_closed s i = s\<lparr>calls := (calls s)[i := (calls s ! i)\<lparr>closed := True\<rparr>]\<rparr>"

section \<open>Runs of the process\<close>

text \<open>
  The process is driven by the events of its input stream and of its HTTP calls. A
  handler runs to its end before the next event is taken, and the rest of \<^verbatim>\<open>processLine\<close>
  runs right after the handler that settles its promise, so both make one step. A call is
  named by its position in \<open>calls\<close>.

  The runtime delivers an event only where \<open>enabled\<close> holds: nothing after the process has
  ended; no input event after the end of input; for a call, nothing after the runtime has
  closed it; the response callback once, as it is a one-time listener; data and the end of
  a response only after the response callback, and no data or second end after the end.
  Nothing else is assumed: an error may come at any time and more than once, before or
  after the end of the response, and a call may be closed before its response has ended.

  The process ends in three ways: by the uncaught exception at the start; by
  \<^verbatim>\<open>process.exit\<close> in \<^verbatim>\<open>checkExit\<close>; and, with status 0, when the runtime finds nothing
  left that could deliver an event, which is when the input has ended and every call is
  closed (\<open>idle_exit\<close>, tried after every handler).

  The event \<open>Closed i\<close> is the \<^verbatim>\<open>'close'\<close> of call \<open>i\<close>: the runtime emits it in
  its own time, after the end of the response, after an error, or when the connection is
  lost while the response is still arriving (an aborted response).

  What the model leaves to the runtime: \<^verbatim>\<open>client.request\<close> is taken to return normally;
  the target of a request (host, port, path, method), fixed by \<^verbatim>\<open>MCP_URL\<close>, is not
  recorded; signals and errors of the two output streams are not considered.
\<close>

datatype event =
    StdinData string
  | StdinEnd
  | Response nat "string option" "string option"
  | ResData nat string
  | ResEnd nat
  | ReqError nat string
  | Closed nat

definition live :: "bridge \<Rightarrow> nat \<Rightarrow> bool" where
  "live s i = (exited s = None \<and> i < length (calls s) \<and> \<not> closed (calls s ! i))"

fun unanswered :: "phase \<Rightarrow> bool" where
  "unanswered Awaiting = True"
| "unanswered (Completed Unanswered) = True"
| "unanswered _ = False"

fun streaming :: "phase \<Rightarrow> bool" where
  "streaming (Receiving ct body) = True"
| "streaming (Completed Streaming) = True"
| "streaming _ = False"

fun enabled :: "bridge \<Rightarrow> event \<Rightarrow> bool" where
  "enabled s (StdinData chunk) = (exited s = None \<and> \<not> stdinClosed s)"
| "enabled s StdinEnd = (exited s = None \<and> \<not> stdinClosed s)"
| "enabled s (Response i sid ct) = (live s i \<and> unanswered (phase (calls s ! i)))"
| "enabled s (ResData i chunk) = (live s i \<and> streaming (phase (calls s ! i)))"
| "enabled s (ResEnd i) = (live s i \<and> streaming (phase (calls s ! i)))"
| "enabled s (ReqError i errorMsg) = live s i"
| "enabled s (Closed i) = live s i"

fun handle :: "runtime \<Rightarrow> bridge \<Rightarrow> event \<Rightarrow> bridge" where
  "handle rt s (StdinData chunk) = on_stdin_data rt s chunk"
| "handle rt s StdinEnd = on_stdin_end rt s"
| "handle rt s (Response i sid ct) = on_response s i sid ct"
| "handle rt s (ResData i chunk) = on_res_data s i chunk"
| "handle rt s (ResEnd i) = on_res_end rt s i"
| "handle rt s (ReqError i errorMsg) = on_req_error s i errorMsg"
| "handle rt s (Closed i) = on_closed s i"

definition idle_exit :: "bridge \<Rightarrow> bridge" where
  "idle_exit s =
     (if exited s = None \<and> stdinClosed s \<and> list_all closed (calls s)
      then s\<lparr>exited := Some 0\<rparr> else s)"

definition fire :: "runtime \<Rightarrow> bridge \<Rightarrow> event \<Rightarrow> bridge" where
  "fire rt s e = (if enabled s e then idle_exit (handle rt s e) else s)"

text \<open>
  \<open>run\<close> is a run of the module once it has started; \<open>execution\<close> is a run of the
  process from its very beginning.
\<close>

definition run :: "runtime \<Rightarrow> event list \<Rightarrow> bridge" where
  "run rt es = foldl (fire rt) (init rt) es"

definition execution :: "runtime \<Rightarrow> event list \<Rightarrow> bridge" where
  "execution rt es = foldl (fire rt) (start rt) es"

text \<open>
  A run is \<open>orderly\<close> when every call gets at most one completion and is closed only
  after it: the end of a response and an error come only to a call whose promise is not
  settled, and the runtime closes only calls whose promise is settled.
\<close>

fun awaited :: "phase \<Rightarrow> bool" where
  "awaited Awaiting = True"
| "awaited (Receiving ct body) = True"
| "awaited (Completed r) = False"

fun regular :: "bridge \<Rightarrow> event \<Rightarrow> bool" where
  "regular s (ResEnd i) = awaited (phase (calls s ! i))"
| "regular s (ReqError i errorMsg) = awaited (phase (calls s ! i))"
| "regular s (Closed i) = (\<not> awaited (phase (calls s ! i)))"
| "regular s e = True"

fun orderly :: "runtime \<Rightarrow> bridge \<Rightarrow> event list \<Rightarrow> bool" where
  "orderly rt s [] = True"
| "orderly rt s (e # es) = ((enabled s e \<longrightarrow> regular s e) \<and> orderly rt (fire rt s e) es)"

section \<open>Invariants\<close>

text \<open>
  In every run: the process has ended only with status 0, and only after the input has
  ended, with the counter at 0 or with every call closed.
\<close>

definition exit_sound :: "bridge \<Rightarrow> bool" where
  "exit_sound s =
     (exited s = None
      \<or> (exited s = Some 0 \<and> stdinClosed s
          \<and> (pendingRequests s = 0 \<or> list_all closed (calls s))))"

text \<open>
  In orderly runs: the exit status agrees with the exit condition of \<^verbatim>\<open>checkExit\<close>; the
  counter \<^verbatim>\<open>pendingRequests\<close> is the number of calls whose promise is not settled; and a
  call that is closed has its promise settled.
\<close>

definition exit_ok :: "bridge \<Rightarrow> bool" where
  "exit_ok s = (exited s = (if stdinClosed s \<and> pendingRequests s = 0 then Some 0 else None))"

definition counted :: "bridge \<Rightarrow> bool" where
  "counted s =
     (pendingRequests s = int (length (filter (\<lambda>c. awaited (phase c)) (calls s))))"

definition closed_settled :: "bridge \<Rightarrow> bool" where
  "closed_settled s = (\<forall>c \<in> set (calls s). closed c \<longrightarrow> \<not> awaited (phase c))"

definition steady :: "bridge \<Rightarrow> bool" where
  "steady s = (exit_ok s \<and> counted s \<and> closed_settled s)"

text \<open>
  While only the input stream delivers events: every call is awaiting its response and
  not closed, and the counter is the number of calls.
\<close>

definition fresh :: "bridge \<Rightarrow> bool" where
  "fresh s =
     (pendingRequests s = int (length (calls s)) \<and> (\<forall>c \<in> set (calls s). \<not> closed c))"

section \<open>A runtime for concrete runs\<close>

text \<open>
  To evaluate the model on concrete inputs, \<open>sample_runtime\<close> gives the part of the graphs
  of \<^verbatim>\<open>JSON.parse\<close>, \<^verbatim>\<open>JSON.stringify\<close> and \<^verbatim>\<open>new URL\<close> that the examples use; on
  these texts and values it agrees with the built-ins. Every other text is rejected.
\<close>

definition sample_parse :: \<open>string \<Rightarrow> string + json\<close> where
  \<open>sample_parse s =
     (if s = ''{"a":1}'' then Inr (JObject [(''a'', JNumber 1)])
      else if s = ''{"b":2}'' then Inr (JObject [(''b'', JNumber 2)])
      else if s = ''{"id":1}'' then Inr (JObject [(''id'', JNumber 1)])
      else if s = ''{"id":2}'' then Inr (JObject [(''id'', JNumber 2)])
      else if s = ''0'' then Inr (JNumber 0)
      else if s = ''false'' then Inr (JBool False)
      else if s = ''""'' then Inr (JString [])
      else if s = ''null'' then Inr JNull
      else Inl ''Unexpected token'')\<close>

definition sample_stringify :: \<open>json \<Rightarrow> string\<close> where
  \<open>sample_stringify v =
     (if v = JObject [(''a'', JNumber 1)] then ''{"a":1}''
      else if v = JObject [(''b'', JNumber 2)] then ''{"b":2}''
      else if v = JObject [(''id'', JNumber 1)] then ''{"id":1}''
      else if v = JObject [(''id'', JNumber 2)] then ''{"id":2}''
      else if v = JNumber 0 then ''0''
      else if v = JBool False then ''false''
      else if v = JString [] then ''""''
      else ''null'')\<close>

definition sample_runtime :: runtime where
  "sample_runtime =
     \<lparr> JSON_parse = sample_parse, JSON_stringify = sample_stringify,
       URL_accepts = (\<lambda>u. u = ''https://archon.technology/mcp''), env_MCP_URL = None \<rparr>"

section \<open>The decoding rules as the specification words them\<close>

text \<open>
  The event of one line of an event-stream body: a line that begins with \<^verbatim>\<open>data: \<close> and
  whose remainder parses gives the parsed value; any other line gives nothing.
\<close>

definition sse_payload :: "runtime \<Rightarrow> string \<Rightarrow> json option" where
  "sse_payload rt line =
     (if take 6 line = ''data: '' then
        (case JSON_parse rt (drop 6 line) of Inr v \<Rightarrow> Some v | Inl _ \<Rightarrow> None)
      else None)"

definition sse_events :: "runtime \<Rightarrow> string \<Rightarrow> json list" where
  "sse_events rt body = List.map_filter (sse_payload rt) (split_nl body)"

definition blank :: "string \<Rightarrow> bool" where
  "blank s = list_all isWhiteSpace s"

section \<open>The output rules as the specification words them\<close>

text \<open>
  The lines for a sequence of events when exactly the null events are skipped, and when
  the events skipped are \<^verbatim>\<open>null\<close>, \<^verbatim>\<open>false\<close>, \<^verbatim>\<open>0\<close> and the empty string.
\<close>

definition lines_skipping_null :: "runtime \<Rightarrow> json list \<Rightarrow> string list" where
  "lines_skipping_null rt events =
     map (\<lambda>v. JSON_stringify rt v @ [CHR 0x0A]) (filter (\<lambda>v. v \<noteq> JNull) events)"

definition skipped :: "json \<Rightarrow> bool" where
  "skipped v = (v = JNull \<or> v = JBool False \<or> v = JNumber 0 \<or> v = JString [])"

definition lines_skipping_falsy :: "runtime \<Rightarrow> json list \<Rightarrow> string list" where
  "lines_skipping_falsy rt events =
     map (\<lambda>v. JSON_stringify rt v @ [CHR 0x0A]) (filter (\<lambda>v. \<not> skipped v) events)"

section \<open>The lines handed to the dispatcher\<close>

text \<open>
  The lines that the two listeners of the input stream pass to \<^verbatim>\<open>processLine\<close>, in order,
  when the chunks \<open>cs\<close> arrive with \<open>buf\<close> in the buffer and the input then ends: for each
  chunk the segments that the \<^verbatim>\<open>'data'\<close> listener takes off, and at the end the buffer if
  \<^verbatim>\<open>buffer.trim()\<close> is not empty.
\<close>

fun handed :: "string \<Rightarrow> string list \<Rightarrow> string list" where
  "handed buf [] = (if trim buf \<noteq> [] then [buf] else [])"
| "handed buf (chunk # cs) =
     (let (popped, lines) = pop (split_nl (buf @ chunk))
      in lines @ handed (or_empty popped) cs)"

section \<open>The session header of a call\<close>

text \<open>
  The value of the header \<^verbatim>\<open>Mcp-Session-Id\<close> that a call was sent with, if any; and the
  invariant that \<^verbatim>\<open>sessionId\<close> is never the empty string.
\<close>

definition session_header :: "call \<Rightarrow> string option" where
  "session_header c = map_of (req_headers c) ''Mcp-Session-Id''"

definition token_ok :: "bridge \<Rightarrow> bool" where
  "token_ok s = (sessionId s \<noteq> Some [])"

text \<open>
  From \<open>s\<close> to \<open>s'\<close> the token is unchanged and calls were only added, each with the
  headers that \<^verbatim>\<open>sendRequest\<close> builds from the token of \<open>s\<close>.
\<close>

definition issued_with :: "bridge \<Rightarrow> bridge \<Rightarrow> bool" where
  "issued_with s s' =
     (sessionId s' = sessionId s
      \<and> (\<exists>new. calls s' = calls s @ new
            \<and> (\<forall>c \<in> set new. req_headers c = request_headers (sessionId s))))"

section \<open>Properties of the runs\<close>

subsection \<open>Evaluation of concrete runs\<close>

lemmas handler_defs =
  run_def execution_def start_def fire_def idle_exit_def live_def init_def crashed_def
  on_stdin_data_def on_stdin_end_def on_response_def on_res_data_def on_res_end_def
  on_req_error_def on_closed_def processLine_def sendRequest_def checkExit_def
  resume_resolved_def resume_rejected_def pop_def or_empty_def trim_def
  isWhiteSpace_def request_headers_def MCP_URL_def

lemmas sample_defs = sample_runtime_def sample_parse_def sample_stringify_def

subsection \<open>Steps and fields\<close>

lemma run_snoc: "run rt (es @ [e]) = fire rt (run rt es) e"
  by (simp add: run_def)

lemma run_Nil: "run rt [] = init rt"
  by (simp add: run_def)

lemma run_append: "run rt (es @ es') = foldl (fire rt) (run rt es) es'"
  by (simp add: run_def)

lemma checkExit_fields:
  "pendingRequests (checkExit s) = pendingRequests s"
  "calls (checkExit s) = calls s"
  "sessionId (checkExit s) = sessionId s"
  "stdinClosed (checkExit s) = stdinClosed s"
  "buffer (checkExit s) = buffer s"
  "stdout (checkExit s) = stdout s"
  "stderr (checkExit s) = stderr s"
  by (simp_all add: checkExit_def)

lemma idle_exit_fields:
  "pendingRequests (idle_exit s) = pendingRequests s"
  "calls (idle_exit s) = calls s"
  "sessionId (idle_exit s) = sessionId s"
  "stdinClosed (idle_exit s) = stdinClosed s"
  "buffer (idle_exit s) = buffer s"
  "stdout (idle_exit s) = stdout s"
  "stderr (idle_exit s) = stderr s"
  by (simp_all add: idle_exit_def)

lemma idle_exit_open: "\<not> stdinClosed s \<Longrightarrow> idle_exit s = s"
  by (simp add: idle_exit_def)

lemma idle_exit_ended: "exited s \<noteq> None \<Longrightarrow> idle_exit s = s"
  by (simp add: idle_exit_def)

lemma sendRequest_fields:
  "pendingRequests (sendRequest rt s v) = pendingRequests s + 1"
  "exited (sendRequest rt s v) = exited s"
  "stdinClosed (sendRequest rt s v) = stdinClosed s"
  "buffer (sendRequest rt s v) = buffer s"
  "sessionId (sendRequest rt s v) = sessionId s"
  "stdout (sendRequest rt s v) = stdout s"
  "stderr (sendRequest rt s v) = stderr s"
  "calls (sendRequest rt s v) =
     calls s @ [\<lparr>req_headers = request_headers (sessionId s),
                req_body = JSON_stringify rt v, phase = Awaiting, closed = False\<rparr>]"
  by (simp_all add: sendRequest_def Let_def)

lemma write_responses_fields:
  "stdinClosed (write_responses rt s rs) = stdinClosed s \<and>
   pendingRequests (write_responses rt s rs) = pendingRequests s \<and>
   exited (write_responses rt s rs) = exited s \<and>
   sessionId (write_responses rt s rs) = sessionId s \<and>
   buffer (write_responses rt s rs) = buffer s \<and>
   calls (write_responses rt s rs) = calls s \<and>
   stderr (write_responses rt s rs) = stderr s"
  by (induction rs arbitrary: s) simp_all


lemma processLine_open:
  "\<not> stdinClosed s \<Longrightarrow> exited s = None \<Longrightarrow>
   \<not> stdinClosed (processLine rt s l) \<and> exited (processLine rt s l) = None"
  by (simp add: processLine_def checkExit_def sendRequest_def Let_def split: sum.splits)

lemma foldl_processLine_open:
  "\<not> stdinClosed s \<Longrightarrow> exited s = None \<Longrightarrow>
   \<not> stdinClosed (foldl (processLine rt) s ls) \<and> exited (foldl (processLine rt) s ls) = None"
proof (induction ls arbitrary: s)
  case Nil
  then show ?case by simp
next
  case (Cons l ls)
  then show ?case using processLine_open [of s rt l] by simp
qed

lemma on_stdin_data_open:
  "\<not> stdinClosed s \<Longrightarrow> exited s = None \<Longrightarrow>
   \<not> stdinClosed (on_stdin_data rt s chunk) \<and> exited (on_stdin_data rt s chunk) = None"
  using foldl_processLine_open [of "s\<lparr>buffer := or_empty (fst (pop (split_nl (buffer s @ chunk))))\<rparr>"
      rt "snd (pop (split_nl (buffer s @ chunk)))"]
  by (simp add: on_stdin_data_def split_beta)

lemma fire_StdinData:
  "exited s = None \<Longrightarrow> \<not> stdinClosed s \<Longrightarrow> fire rt s (StdinData c) = on_stdin_data rt s c"
  using on_stdin_data_open [of s rt c] by (simp add: fire_def idle_exit_open)

subsection \<open>What holds in every run\<close>

lemma checkExit_sound: "exited s = None \<Longrightarrow> exit_sound (checkExit s)"
  by (simp add: exit_sound_def checkExit_def)

lemma alive_sound: "exited s = None \<Longrightarrow> exit_sound s"
  by (simp add: exit_sound_def)

lemma idle_exit_sound: "exit_sound s \<Longrightarrow> exit_sound (idle_exit s)"
  by (simp add: exit_sound_def idle_exit_def)

lemma handle_sound: "enabled s e \<Longrightarrow> exit_sound (handle rt s e)"
proof (cases e)
  case (StdinData chunk)
  assume "enabled s e"
  with StdinData on_stdin_data_open [of s rt chunk] show ?thesis
    by (simp add: alive_sound)
next
  case StdinEnd
  assume "enabled s e"
  with StdinEnd processLine_open [of s rt "buffer s"] show ?thesis
    by (simp add: on_stdin_end_def Let_def checkExit_sound)
next
  case (Response i sid ct)
  assume "enabled s e"
  with Response show ?thesis
    by (simp add: on_response_def Let_def live_def alive_sound split: option.splits)
next
  case (ResData i chunk)
  assume "enabled s e"
  with ResData show ?thesis
    by (simp add: on_res_data_def live_def alive_sound split: phase.splits)
next
  case (ResEnd i)
  assume "enabled s e"
  with ResEnd show ?thesis
    by (simp add: on_res_end_def resume_resolved_def Let_def live_def alive_sound
        checkExit_sound write_responses_fields split: phase.splits stream.splits)
next
  case (ReqError i m)
  assume "enabled s e"
  with ReqError show ?thesis
    by (simp add: on_req_error_def resume_rejected_def Let_def live_def alive_sound
        checkExit_sound split: phase.splits)
next
  case (Closed i)
  assume "enabled s e"
  with Closed show ?thesis
    by (simp add: on_closed_def live_def alive_sound)
qed

lemma fire_sound: "exit_sound s \<Longrightarrow> exit_sound (fire rt s e)"
  by (simp add: fire_def handle_sound idle_exit_sound)

lemma foldl_fire_sound: "exit_sound s \<Longrightarrow> exit_sound (foldl (fire rt) s es)"
  by (induction es arbitrary: s) (simp_all add: fire_sound)

lemma run_sound: "exit_sound (run rt es)"
  unfolding run_def by (rule foldl_fire_sound) (simp add: init_def exit_sound_def)




subsection \<open>What holds in orderly runs\<close>

lemma filter_update_same:
  "i < length xs \<Longrightarrow> P (xs ! i) = P y \<Longrightarrow>
   length (filter P (xs[i := y])) = length (filter P xs)"
proof (induction xs arbitrary: i)
  case Nil
  then show ?case by simp
next
  case (Cons x xs)
  then show ?case by (cases i) auto
qed

lemma filter_update_drop:
  "i < length xs \<Longrightarrow> P (xs ! i) \<Longrightarrow> \<not> P y \<Longrightarrow>
   Suc (length (filter P (xs[i := y]))) = length (filter P xs)"
proof (induction xs arbitrary: i)
  case Nil
  then show ?case by simp
next
  case (Cons x xs)
  then show ?case by (cases i) auto
qed

lemma update_all:
  "\<forall>c \<in> set xs. P c \<Longrightarrow> P y \<Longrightarrow> \<forall>c \<in> set (xs[i := y]). P c"
  using set_update_subset_insert [of xs i y] by auto

lemma awaited_answered: "awaited (answered ct p) = awaited p"
  by (cases p) simp_all

text \<open>The three parts of \<open>steady\<close> depend on few fields.\<close>

lemma steady_cong:
  "exited s' = exited s \<Longrightarrow> stdinClosed s' = stdinClosed s \<Longrightarrow>
   pendingRequests s' = pendingRequests s \<Longrightarrow> calls s' = calls s \<Longrightarrow>
   steady s' = steady s"
  by (simp add: steady_def exit_ok_def counted_def closed_settled_def)

lemma steady_checkExit:
  "exited s = None \<Longrightarrow> counted s \<Longrightarrow> closed_settled s \<Longrightarrow> steady (checkExit s)"
  by (simp add: steady_def exit_ok_def counted_def closed_settled_def checkExit_def)

lemma steady_alive:
  "steady s \<Longrightarrow> exited s = None \<Longrightarrow> \<not> (stdinClosed s \<and> pendingRequests s = 0)"
  by (auto simp add: steady_def exit_ok_def split: if_splits)

lemma processLine_steady:
  assumes "steady s" and "\<not> stdinClosed s"
  shows "steady (processLine rt s l)"
proof (cases "exited s = None \<and> trim l \<noteq> []")
  case False
  with assms show ?thesis by (auto simp add: processLine_def)
next
  case True
  show ?thesis
  proof (cases "JSON_parse rt l")
    case (Inl m)
    have "steady (s\<lparr>stderr := stderr s @ [''Error: '' @ m @ [CHR 0x0A]]\<rparr>) = steady s"
      by (rule steady_cong) simp_all
    with assms True Inl show ?thesis
      by (simp add: processLine_def checkExit_def)
  next
    case (Inr v)
    with assms True show ?thesis
      by (simp add: processLine_def steady_def exit_ok_def counted_def closed_settled_def
          sendRequest_fields)
  qed
qed

lemma foldl_processLine_steady:
  "steady s \<Longrightarrow> \<not> stdinClosed s \<Longrightarrow> exited s = None \<Longrightarrow>
   steady (foldl (processLine rt) s ls)"
proof (induction ls arbitrary: s)
  case Nil
  then show ?case by simp
next
  case (Cons l ls)
  from Cons.prems processLine_open [of s rt l] processLine_steady [of s rt l]
  show ?case by (simp add: Cons.IH)
qed

lemma on_stdin_data_steady:
  assumes "steady s" and "\<not> stdinClosed s" and "exited s = None"
  shows "steady (on_stdin_data rt s chunk)"
proof -
  let ?s1 = "s\<lparr>buffer := or_empty (fst (pop (split_nl (buffer s @ chunk))))\<rparr>"
  have "steady ?s1 = steady s" by (rule steady_cong) simp_all
  with assms have "steady (foldl (processLine rt) ?s1 (snd (pop (split_nl (buffer s @ chunk)))))"
    by (intro foldl_processLine_steady) simp_all
  then show ?thesis by (simp add: on_stdin_data_def split_beta)
qed

lemma on_stdin_end_steady:
  assumes "steady s" and "\<not> stdinClosed s" and "exited s = None"
  shows "steady (on_stdin_end rt s)"
proof -
  let ?s1 = "if trim (buffer s) \<noteq> [] then processLine rt s (buffer s) else s"
  from assms processLine_steady [of s rt "buffer s"] processLine_open [of s rt "buffer s"]
  have s1: "steady ?s1" "exited ?s1 = None" by auto
  then have "counted (?s1\<lparr>stdinClosed := True\<rparr>)" "closed_settled (?s1\<lparr>stdinClosed := True\<rparr>)"
    by (simp_all add: steady_def counted_def closed_settled_def)
  with s1(2) have "steady (checkExit (?s1\<lparr>stdinClosed := True\<rparr>))"
    by (intro steady_checkExit) simp_all
  with s1(2) show ?thesis by (simp add: on_stdin_end_def Let_def)
qed

lemma update_phase_steady:
  assumes "steady s" and "i < length (calls s)"
    and "awaited p = awaited (phase (calls s ! i))"
  shows "steady (s\<lparr>calls := (calls s)[i := (calls s ! i)\<lparr>phase := p\<rparr>]\<rparr>)"
proof -
  let ?c = "(calls s ! i)\<lparr>phase := p\<rparr>"
  have "length (filter (\<lambda>c. awaited (phase c)) ((calls s)[i := ?c]))
        = length (filter (\<lambda>c. awaited (phase c)) (calls s))"
    using assms(2,3) by (intro filter_update_same) simp_all
  moreover have "\<forall>c \<in> set ((calls s)[i := ?c]). closed c \<longrightarrow> \<not> awaited (phase c)"
    using assms by (intro update_all) (auto simp add: steady_def closed_settled_def)
  ultimately show ?thesis
    using assms(1) by (simp add: steady_def exit_ok_def counted_def closed_settled_def)
qed

lemma settle_counted:
  assumes "steady s" and "i < length (calls s)" and "awaited (phase (calls s ! i))"
  shows "counted (s\<lparr>pendingRequests := pendingRequests s - 1,
                   calls := (calls s)[i := (calls s ! i)\<lparr>phase := Completed r\<rparr>]\<rparr>)
       \<and> closed_settled (s\<lparr>pendingRequests := pendingRequests s - 1,
                   calls := (calls s)[i := (calls s ! i)\<lparr>phase := Completed r\<rparr>]\<rparr>)"
proof -
  let ?c = "(calls s ! i)\<lparr>phase := Completed r\<rparr>"
  have "Suc (length (filter (\<lambda>c. awaited (phase c)) ((calls s)[i := ?c])))
        = length (filter (\<lambda>c. awaited (phase c)) (calls s))"
    using assms(2,3) by (intro filter_update_drop) simp_all
  moreover have "\<forall>c \<in> set ((calls s)[i := ?c]). closed c \<longrightarrow> \<not> awaited (phase c)"
    using assms by (intro update_all) (auto simp add: steady_def closed_settled_def)
  ultimately show ?thesis
    using assms(1) by (simp add: steady_def counted_def closed_settled_def)
qed

lemma on_response_steady:
  assumes "steady s" and "live s i"
  shows "steady (on_response s i sid ct)"
proof -
  let ?s1 = "case sid of None \<Rightarrow> s | Some v \<Rightarrow> (if v \<noteq> [] then s\<lparr>sessionId := Some v\<rparr> else s)"
  have f: "exited ?s1 = exited s" "stdinClosed ?s1 = stdinClosed s"
    "pendingRequests ?s1 = pendingRequests s" "calls ?s1 = calls s"
    by (simp_all split: option.splits)
  then have "steady ?s1 = steady s" by (rule steady_cong)
  with assms have "steady (?s1\<lparr>calls := (calls ?s1)[i := (calls ?s1 ! i)
      \<lparr>phase := answered (or_empty ct) (phase (calls ?s1 ! i))\<rparr>]\<rparr>)"
    by (intro update_phase_steady) (simp_all add: f live_def awaited_answered)
  then show ?thesis by (simp add: on_response_def Let_def)
qed

lemma on_res_data_steady:
  assumes "steady s" and "live s i"
  shows "steady (on_res_data s i chunk)"
proof (cases "phase (calls s ! i)")
  case (Receiving ct body)
  with assms update_phase_steady [of s i "Receiving ct (body @ chunk)"] show ?thesis
    by (simp add: on_res_data_def live_def)
qed (use assms in \<open>simp_all add: on_res_data_def\<close>)

lemma on_res_end_steady:
  assumes "steady s" and "live s i" and "awaited (phase (calls s ! i))"
    and "streaming (phase (calls s ! i))"
  shows "steady (on_res_end rt s i)"
proof (cases "phase (calls s ! i)")
  case (Receiving ct body)
  let ?s2 = "s\<lparr>pendingRequests := pendingRequests s - 1,
               calls := (calls s)[i := (calls s ! i)\<lparr>phase := Completed Ended\<rparr>]\<rparr>"
  let ?s3 = "write_responses rt ?s2 (decode rt ct body)"
  from assms have "counted ?s2 \<and> closed_settled ?s2"
    by (intro settle_counted) (simp_all add: live_def)
  then have "counted ?s3" "closed_settled ?s3"
    by (simp_all add: counted_def closed_settled_def write_responses_fields)
  moreover from assms(2) have "exited ?s3 = None"
    by (simp add: write_responses_fields live_def)
  ultimately have "steady (checkExit ?s3)" by (intro steady_checkExit)
  with Receiving show ?thesis
    by (simp add: on_res_end_def resume_resolved_def Let_def)
qed (use assms in simp_all)

lemma on_req_error_steady:
  assumes "steady s" and "live s i" and "awaited (phase (calls s ! i))"
  shows "steady (on_req_error s i m)"
proof -
  have step: "steady (resume_rejected
      (s\<lparr>pendingRequests := pendingRequests s - 1,
         calls := (calls s)[i := (calls s ! i)\<lparr>phase := Completed r\<rparr>]\<rparr>) m)" for r
  proof -
    let ?s2 = "s\<lparr>pendingRequests := pendingRequests s - 1,
               calls := (calls s)[i := (calls s ! i)\<lparr>phase := Completed r\<rparr>]\<rparr>"
    let ?s3 = "?s2\<lparr>stderr := stderr ?s2 @ [''Error: '' @ m @ [CHR 0x0A]]\<rparr>"
    from assms have "counted ?s2 \<and> closed_settled ?s2"
      by (intro settle_counted) (simp_all add: live_def)
    then have "counted ?s3" "closed_settled ?s3"
      by (simp_all add: counted_def closed_settled_def)
    moreover from assms(2) have "exited ?s3 = None"
      by (simp add: live_def)
    ultimately have "steady (checkExit ?s3)" by (intro steady_checkExit)
    then show ?thesis by (simp add: resume_rejected_def)
  qed
  show ?thesis
  proof (cases "phase (calls s ! i)")
    case Awaiting
    with step [of Unanswered] show ?thesis by (simp add: on_req_error_def Let_def)
  next
    case (Receiving ct body)
    with step [of Streaming] show ?thesis by (simp add: on_req_error_def Let_def)
  next
    case (Completed r)
    with assms(3) show ?thesis by simp
  qed
qed

lemma on_closed_steady:
  assumes "steady s" and "live s i" and "\<not> awaited (phase (calls s ! i))"
  shows "steady (on_closed s i)"
proof -
  let ?c = "(calls s ! i)\<lparr>closed := True\<rparr>"
  from assms(2) have i: "i < length (calls s)" by (simp add: live_def)
  then have "length (filter (\<lambda>c. awaited (phase c)) ((calls s)[i := ?c]))
        = length (filter (\<lambda>c. awaited (phase c)) (calls s))"
    by (intro filter_update_same) simp_all
  moreover have "\<forall>c \<in> set ((calls s)[i := ?c]). closed c \<longrightarrow> \<not> awaited (phase c)"
    using assms by (intro update_all) (auto simp add: steady_def closed_settled_def)
  ultimately show ?thesis
    using assms(1) by (simp add: on_closed_def steady_def exit_ok_def counted_def closed_settled_def)
qed

lemma handle_steady:
  assumes "steady s" and "enabled s e" and "regular s e"
  shows "steady (handle rt s e)"
  using assms
  by (cases e)
     (simp_all add: on_stdin_data_steady on_stdin_end_steady on_response_steady
       on_res_data_steady on_res_end_steady on_req_error_steady on_closed_steady)

text \<open>In a steady state the runtime never finds the process idle.\<close>

lemma idle_exit_steady:
  assumes "steady s"
  shows "idle_exit s = s"
proof (cases "exited s = None \<and> stdinClosed s")
  case False
  then show ?thesis by (auto simp add: idle_exit_def)
next
  case True
  with assms have "pendingRequests s \<noteq> 0"
    by (auto simp add: steady_def exit_ok_def split: if_splits)
  with assms have "filter (\<lambda>c. awaited (phase c)) (calls s) \<noteq> []"
    by (auto simp add: steady_def counted_def)
  then obtain c where "c \<in> set (calls s)" and "awaited (phase c)"
    by (auto simp add: filter_empty_conv)
  with assms have "c \<in> set (calls s)" and "\<not> closed c"
    by (auto simp add: steady_def closed_settled_def)
  then have "\<not> list_all closed (calls s)"
    by (auto simp add: list_all_iff)
  then show ?thesis by (simp add: idle_exit_def)
qed

lemma fire_steady:
  "steady s \<Longrightarrow> enabled s e \<longrightarrow> regular s e \<Longrightarrow> steady (fire rt s e)"
  by (simp add: fire_def handle_steady idle_exit_steady)

lemma foldl_fire_steady:
  "steady s \<Longrightarrow> orderly rt s es \<Longrightarrow> steady (foldl (fire rt) s es)"
  by (induction es arbitrary: s) (simp_all add: fire_steady)

lemma init_steady: "steady (init rt)"
  by (simp add: steady_def exit_ok_def counted_def closed_settled_def init_def)

lemma run_steady: "orderly rt (init rt) es \<Longrightarrow> steady (run rt es)"
  unfolding run_def by (rule foldl_fire_steady [OF init_steady])

subsection \<open>Termination\<close>





subsection \<open>The counter of pending requests\<close>

text \<open>
  C5. One request is sent; its response begins, an error is reported on the request, and
  the response ends. Each of the two listeners decrements \<^verbatim>\<open>pendingRequests\<close>: the counter
  is 1 after the line and after the response callback, 0 after the error and -1 after the
  end of the response.
\<close>

theorem C5_double_decrement:
  \<open>pendingRequests (execution sample_runtime [StdinData ''{"id":1}\<newline>'']) = 1
   \<and> pendingRequests (execution sample_runtime
        [StdinData ''{"id":1}\<newline>'', Response 0 None None]) = 1
   \<and> pendingRequests (execution sample_runtime
        [StdinData ''{"id":1}\<newline>'', Response 0 None None, ReqError 0 ''aborted'']) = 0
   \<and> pendingRequests (execution sample_runtime
        [StdinData ''{"id":1}\<newline>'', Response 0 None None, ReqError 0 ''aborted'',
         ResEnd 0]) = - 1
   \<and> length (calls (execution sample_runtime
        [StdinData ''{"id":1}\<newline>'', Response 0 None None, ReqError 0 ''aborted'',
         ResEnd 0])) = 1\<close>
  by (simp add: handler_defs sample_defs)

subsection \<open>The response decoder\<close>

lemma dropWhile_rev_empty:
  "d = [] \<or> \<not> P (hd d) \<Longrightarrow> dropWhile P (rev d) = [] \<longleftrightarrow> d = []"
  by (cases d) (auto simp add: dropWhile_eq_Nil_conv)

lemma trim_empty_iff: "trim s = [] \<longleftrightarrow> blank s"
proof -
  have "dropWhile isWhiteSpace s = [] \<or> \<not> isWhiteSpace (hd (dropWhile isWhiteSpace s))"
    using hd_dropWhile [of isWhiteSpace s] by blast
  then have "dropWhile isWhiteSpace (rev (dropWhile isWhiteSpace s)) = []
        \<longleftrightarrow> dropWhile isWhiteSpace s = []"
    by (rule dropWhile_rev_empty)
  moreover have "dropWhile isWhiteSpace s = [] \<longleftrightarrow> blank s"
    by (simp add: blank_def dropWhile_eq_Nil_conv list_all_iff)
  ultimately show ?thesis
    by (simp add: trim_def)
qed

lemma startsWith_data: "startsWith l ''data: '' = (take 6 l = ''data: '')"
proof -
  have "length ''data: '' = 6" by simp
  then show ?thesis unfolding startsWith_def by (rule ssubst) (rule refl)
qed

lemma split_nl_not_Nil: "split_nl s \<noteq> []"
  by (cases s) (simp_all split: list.splits)

lemma split_nl_chars: "l \<in> set (split_nl s) \<Longrightarrow> set l \<subseteq> set s"
proof (induction s arbitrary: l)
  case Nil
  then show ?case by simp
next
  case (Cons c cs)
  show ?case
  proof (cases "c = CHR 0x0A")
    case True
    with Cons show ?thesis by auto
  next
    case False
    obtain l0 ls where sp: "split_nl cs = l0 # ls"
      using split_nl_not_Nil [of cs] by (cases "split_nl cs") auto
    with False Cons.prems have "l = c # l0 \<or> l \<in> set ls"
      by simp
    with Cons.IH [of l0] Cons.IH [of l] sp show ?thesis by auto
  qed
qed

lemma parseSSE_loop_eq:
  "parseSSE_loop rt events ls = events @ List.map_filter (sse_payload rt) ls"
  by (induction ls arbitrary: events)
     (simp_all add: map_filter_simps sse_payload_def startsWith_data slice_def split: sum.splits)

lemma parseSSE_eq: "parseSSE rt body = sse_events rt body"
  by (simp add: parseSSE_def sse_events_def parseSSE_loop_eq)

lemma sse_payload_blank: "blank l \<Longrightarrow> sse_payload rt l = None"
proof -
  assume b: "blank l"
  have "take 6 l \<noteq> ''data: ''"
  proof
    assume t: "take 6 l = ''data: ''"
    have "set (take 6 l) \<subseteq> set l" by (rule set_take_subset)
    with t have "CHR ''d'' \<in> set l" by auto
    with b have "isWhiteSpace (CHR ''d'')" by (simp add: blank_def list_all_iff)
    then show False by (simp add: isWhiteSpace_def)
  qed
  then show ?thesis by (simp add: sse_payload_def)
qed

lemma sse_events_blank: "blank body \<Longrightarrow> sse_events rt body = []"
proof -
  assume b: "blank body"
  have "sse_payload rt l = None" if "l \<in> set (split_nl body)" for l
  proof -
    from that have "set l \<subseteq> set body" by (rule split_nl_chars)
    with b have "blank l" by (auto simp add: blank_def list_all_iff)
    then show ?thesis by (rule sse_payload_blank)
  qed
  then have "filter (\<lambda>l. sse_payload rt l \<noteq> None) (split_nl body) = []"
    by (simp add: filter_empty_conv)
  then show ?thesis by (simp add: sse_events_def List.map_filter_def)
qed

lemma decode_sse:
  "includes_str ct ''text/event-stream'' \<Longrightarrow> decode rt ct body = sse_events rt body"
  by (simp add: decode_def parseSSE_eq trim_empty_iff sse_events_blank)

text \<open>
  C3. When the content type of a response contains \<^verbatim>\<open>text/event-stream\<close>, the decoder
  returns, in the order of the lines of the body (split at each newline), the parsed
  remainder of every line that begins with \<^verbatim>\<open>data: \<close> and whose remainder parses; the
  other lines are skipped. Thus the body
  \<^verbatim>\<open>data: {"a":1}\ndata: not-json\ndata: {"b":2}\n\<close> gives the two values that
  \<^verbatim>\<open>{"a":1}\<close> and \<^verbatim>\<open>{"b":2}\<close> parse to, \<^verbatim>\<open>not-json\<close> being rejected by the parser.
\<close>

theorem C3_event_stream_decoding:
  \<open>(includes_str ct ''text/event-stream'' \<longrightarrow> decode rt ct body = sse_events rt body)
   \<and> (includes_str ct ''text/event-stream''
        \<and> JSON_parse rt ''{"a":1}'' = Inr a
        \<and> JSON_parse rt ''not-json'' = Inl m
        \<and> JSON_parse rt ''{"b":2}'' = Inr b
      \<longrightarrow> decode rt ct ''data: {"a":1}\<newline>data: not-json\<newline>data: {"b":2}\<newline>'' = [a, b])\<close>
  by (simp add: decode_sse sse_events_def sse_payload_def map_filter_simps)


theorem C3_event_stream_decoding_witness:
  \<open>decode sample_runtime ''text/event-stream''
      ''data: {"a":1}\<newline>data: not-json\<newline>data: {"b":2}\<newline>''
    = [JObject [(''a'', JNumber 1)], JObject [(''b'', JNumber 2)]]
   \<and> sse_events sample_runtime ''data: 0\<newline>id: 7\<newline>''
    = decode sample_runtime ''text/event-stream; charset=utf-8'' ''data: 0\<newline>id: 7\<newline>''\<close>
proof -
  have i1: \<open>includes_str ''text/event-stream'' ''text/event-stream''\<close>
    by (simp add: startsWith_def)
  have i2: \<open>includes_str ''text/event-stream; charset=utf-8'' ''text/event-stream''\<close>
    by (simp add: startsWith_def)
  have p: \<open>JSON_parse sample_runtime ''{"a":1}'' = Inr (JObject [(''a'', JNumber 1)])
           \<and> JSON_parse sample_runtime ''not-json'' = Inl ''Unexpected token''
           \<and> JSON_parse sample_runtime ''{"b":2}'' = Inr (JObject [(''b'', JNumber 2)])\<close>
    by (simp add: sample_defs)
  from i1 p C3_event_stream_decoding [of \<open>''text/event-stream''\<close> sample_runtime \<open>[]\<close>
      \<open>JObject [(''a'', JNumber 1)]\<close> \<open>''Unexpected token''\<close> \<open>JObject [(''b'', JNumber 2)]\<close>]
  have \<open>decode sample_runtime ''text/event-stream''
      ''data: {"a":1}\<newline>data: not-json\<newline>data: {"b":2}\<newline>''
    = [JObject [(''a'', JNumber 1)], JObject [(''b'', JNumber 2)]]\<close>
    by blast
  moreover from i2 C3_event_stream_decoding [of \<open>''text/event-stream; charset=utf-8''\<close>
      sample_runtime \<open>''data: 0\<newline>id: 7\<newline>''\<close>]
  have \<open>sse_events sample_runtime ''data: 0\<newline>id: 7\<newline>''
    = decode sample_runtime ''text/event-stream; charset=utf-8'' ''data: 0\<newline>id: 7\<newline>''\<close>
    by simp
  ultimately show ?thesis by blast
qed

text \<open>
  C7. The decoder is a total function of the content type and the body and returns a
  sequence in every case: the empty sequence for an empty or white-space-only body; and,
  when the content type does not contain \<^verbatim>\<open>text/event-stream\<close>, the one-element sequence
  of the parsed body when the body parses and the empty sequence when it does not (a
  white-space-only body being one that the parser rejects).
\<close>

theorem C7_decoder_total:
  "(blank body \<longrightarrow> decode rt ct body = [])
   \<and> (\<not> includes_str ct ''text/event-stream''
        \<and> (blank body \<longrightarrow> (\<exists>m. JSON_parse rt body = Inl m))
      \<longrightarrow> decode rt ct body = (case JSON_parse rt body of Inr v \<Rightarrow> [v] | Inl m \<Rightarrow> []))"
  by (auto simp add: decode_def trim_empty_iff)

theorem C7_decoder_total_witness:
  \<open>decode sample_runtime ''text/event-stream'' '' \<newline>'' = []
   \<and> decode sample_runtime ''application/json'' ''{"a":1}'' = [JObject [(''a'', JNumber 1)]]
   \<and> decode sample_runtime [] ''{bad'' = []
   \<and> decode sample_runtime ''application/json'' '' '' = []\<close>
proof -
  have n1: \<open>\<not> includes_str ''application/json'' ''text/event-stream''\<close>
    by (simp add: startsWith_def)
  have n2: \<open>\<not> includes_str [] ''text/event-stream''\<close>
    by simp
  have b1: \<open>blank '' \<newline>''\<close> and b2: \<open>\<not> blank ''{"a":1}''\<close> and b3: \<open>\<not> blank ''{bad''\<close>
    and b4: \<open>blank '' ''\<close>
    by (simp_all add: blank_def isWhiteSpace_def)
  have p: \<open>JSON_parse sample_runtime ''{"a":1}'' = Inr (JObject [(''a'', JNumber 1)])\<close>
    \<open>JSON_parse sample_runtime ''{bad'' = Inl ''Unexpected token''\<close>
    \<open>JSON_parse sample_runtime '' '' = Inl ''Unexpected token''\<close>
    by (simp_all add: sample_defs)
  from b1 C7_decoder_total [of \<open>'' \<newline>''\<close> sample_runtime \<open>''text/event-stream''\<close>]
  have \<open>decode sample_runtime ''text/event-stream'' '' \<newline>'' = []\<close> by blast
  moreover from n1 b2 p(1) C7_decoder_total [of \<open>''{"a":1}''\<close> sample_runtime \<open>''application/json''\<close>]
  have \<open>decode sample_runtime ''application/json'' ''{"a":1}'' = [JObject [(''a'', JNumber 1)]]\<close>
    by simp
  moreover from n2 b3 p(2) C7_decoder_total [of \<open>''{bad''\<close> sample_runtime \<open>[]\<close>]
  have \<open>decode sample_runtime [] ''{bad'' = []\<close>
    by simp
  moreover from n1 b4 p(3) C7_decoder_total [of \<open>'' ''\<close> sample_runtime \<open>''application/json''\<close>]
  have \<open>decode sample_runtime ''application/json'' '' '' = []\<close>
    by simp
  ultimately show ?thesis by blast
qed

subsection \<open>The output writer\<close>

lemma truthy_iff: "truthy v \<longleftrightarrow> \<not> skipped v"
  by (cases v) (auto simp add: skipped_def)

lemma write_responses_stdout:
  "stdout (write_responses rt s events) = stdout s @ lines_skipping_falsy rt events"
  by (induction events arbitrary: s) (simp_all add: lines_skipping_falsy_def truthy_iff)

text \<open>
  C2. The loop over the decoded events writes, in order, one line per event
  that is truthy, namely the event serialised and one newline, and skips the events that
  are \<^verbatim>\<open>null\<close>, \<^verbatim>\<open>false\<close>, \<^verbatim>\<open>0\<close> or the empty string; this is what the end of a
  response appends to the output.
\<close>

theorem C2_writes_truthy_events:
  "stdout (write_responses rt s events) = stdout s @ lines_skipping_falsy rt events
   \<and> (phase (calls s ! i) = Receiving ct body \<longrightarrow>
        stdout (on_res_end rt s i) = stdout s @ lines_skipping_falsy rt (decode rt ct body))"
  by (simp add: write_responses_stdout on_res_end_def resume_resolved_def Let_def
      checkExit_fields)

theorem C2_writes_truthy_events_witness:
  \<open>stdout (run sample_runtime
      [StdinData ''{"id":1}\<newline>'', Response 0 None (Some ''text/event-stream''),
       ResData 0 ''data: {"a":1}\<newline>data: 0\<newline>'', ResData 0 ''data: {"b":2}\<newline>'',
       ResEnd 0])
    = [''{"a":1}\<newline>'', ''{"b":2}\<newline>'']\<close>
proof -
  let ?es = \<open>[StdinData ''{"id":1}\<newline>'', Response 0 None (Some ''text/event-stream''),
       ResData 0 ''data: {"a":1}\<newline>data: 0\<newline>'', ResData 0 ''data: {"b":2}\<newline>'']\<close>
  let ?s = \<open>run sample_runtime ?es\<close>
  let ?body = \<open>''data: {"a":1}\<newline>data: 0\<newline>data: {"b":2}\<newline>''\<close>
  have s: \<open>phase (calls ?s ! 0) = Receiving ''text/event-stream'' ?body\<close>
    \<open>stdout ?s = []\<close> \<open>enabled ?s (ResEnd 0)\<close>
    by (simp_all add: handler_defs sample_defs)
  have d: \<open>decode sample_runtime ''text/event-stream'' ?body
           = [JObject [(''a'', JNumber 1)], JNumber 0, JObject [(''b'', JNumber 2)]]\<close>
    by (simp add: decode_def parseSSE_def startsWith_def slice_def trim_def isWhiteSpace_def
        sample_defs)
  have l: \<open>lines_skipping_falsy sample_runtime
             [JObject [(''a'', JNumber 1)], JNumber 0, JObject [(''b'', JNumber 2)]]
           = [''{"a":1}\<newline>'', ''{"b":2}\<newline>'']\<close>
    by (simp add: lines_skipping_falsy_def skipped_def sample_defs)
  have \<open>stdout (run sample_runtime (?es @ [ResEnd 0]))
        = stdout (on_res_end sample_runtime ?s 0)\<close>
    using s(3) by (simp only: run_snoc fire_def handle.simps if_True idle_exit_fields)
  with s(1,2) d l
    C2_writes_truthy_events [of sample_runtime ?s \<open>[]\<close> 0 \<open>''text/event-stream''\<close> ?body]
  show ?thesis by simp
qed

text \<open>
  The events \<^verbatim>\<open>0\<close>, \<^verbatim>\<open>false\<close> and the empty string can be decoded from a response, and
  the loop writes no line for them: it does not write every event that is not null.
\<close>

theorem C2_counterexample:
  \<open>decode sample_runtime ''text/event-stream'' ''data: 0\<newline>data: false\<newline>data: ""\<newline>''
     = [JNumber 0, JBool False, JString []]
   \<and> stdout (write_responses sample_runtime (init sample_runtime)
             [JNumber 0, JBool False, JString []])
     \<noteq> stdout (init sample_runtime)
       @ lines_skipping_null sample_runtime [JNumber 0, JBool False, JString []]\<close>
  by (simp add: init_def lines_skipping_null_def decode_def parseSSE_def startsWith_def
      slice_def trim_def isWhiteSpace_def sample_defs)

subsection \<open>Malformed input lines\<close>

text \<open>
  C6. A line that reaches the dispatcher (one the framer has not dropped as blank) and
  that the parser rejects makes \<^verbatim>\<open>processLine\<close> write the diagnostic \<^verbatim>\<open>Error: \<close>,
  the parser's message and a newline to the error stream, and nothing else: no call is
  issued, nothing is written to the output, \<^verbatim>\<open>pendingRequests\<close> keeps its value, and the
  exit condition is evaluated at once, so the line never holds termination back.
\<close>

theorem C6_malformed_line:
  "exited s = None \<and> \<not> blank line \<and> JSON_parse rt line = Inl msg \<longrightarrow>
     stderr (processLine rt s line) = stderr s @ [''Error: '' @ msg @ [CHR 0x0A]]
     \<and> calls (processLine rt s line) = calls s
     \<and> stdout (processLine rt s line) = stdout s
     \<and> pendingRequests (processLine rt s line) = pendingRequests s
     \<and> sessionId (processLine rt s line) = sessionId s
     \<and> stdinClosed (processLine rt s line) = stdinClosed s
     \<and> exited (processLine rt s line)
         = (if stdinClosed s \<and> pendingRequests s = 0 then Some 0 else None)"
  by (simp add: processLine_def trim_empty_iff checkExit_def)

theorem C6_malformed_line_witness:
  \<open>stderr (run sample_runtime [StdinData ''{bad\<newline>''])
     = [''Archon MCP Bridge - https://archon.technology/mcp\<newline>'',
        ''Error: Unexpected token\<newline>'']
   \<and> calls (run sample_runtime [StdinData ''{bad\<newline>'']) = []
   \<and> stdout (run sample_runtime [StdinData ''{bad\<newline>'']) = []
   \<and> pendingRequests (run sample_runtime [StdinData ''{bad\<newline>'']) = 0
   \<and> exited (run sample_runtime [StdinData ''{bad\<newline>'']) = None\<close>
proof -
  let ?s = \<open>(init sample_runtime)\<lparr>buffer := []\<rparr>\<close>
  have r: \<open>run sample_runtime [StdinData ''{bad\<newline>''] = processLine sample_runtime ?s ''{bad''\<close>
    by (simp add: run_def fire_StdinData init_def on_stdin_data_def pop_def or_empty_def)
  have h: \<open>exited ?s = None \<and> \<not> blank ''{bad''
           \<and> JSON_parse sample_runtime ''{bad'' = Inl ''Unexpected token''\<close>
    by (simp add: init_def blank_def isWhiteSpace_def sample_defs)
  have i: \<open>stderr ?s = [''Archon MCP Bridge - https://archon.technology/mcp\<newline>'']
           \<and> calls ?s = [] \<and> stdout ?s = [] \<and> pendingRequests ?s = 0 \<and> \<not> stdinClosed ?s\<close>
    by (simp add: init_def MCP_URL_def sample_defs)
  from h i C6_malformed_line [of ?s \<open>''{bad''\<close> sample_runtime \<open>''Unexpected token''\<close>]
  show ?thesis unfolding r by simp
qed

subsection \<open>The line framer\<close>

lemma split_nl_cases:
  obtains l ls where "split_nl s = l # ls"
  using split_nl_not_Nil [of s] by (cases "split_nl s") auto

lemma split_nl_Cons_other:
  "c \<noteq> CHR 0x0A \<Longrightarrow> split_nl (c # cs) = (c # hd (split_nl cs)) # tl (split_nl cs)"
  by (rule split_nl_cases [of cs]) simp

lemma split_nl_append:
  "split_nl (a @ b) = butlast (split_nl a) @ split_nl (last (split_nl a) @ b)"
proof (induction a)
  case Nil
  show ?case by simp
next
  case (Cons c cs)
  obtain l0 ls where sp: "split_nl cs = l0 # ls" by (rule split_nl_cases)
  show ?case
  proof (cases "c = CHR 0x0A")
    case True
    with Cons sp show ?thesis by simp
  next
    case False
    show ?thesis
    proof (cases ls)
      case Nil
      with False Cons sp show ?thesis by simp
    next
      case (Cons l1 ls1)
      with False Cons.IH sp show ?thesis by simp
    qed
  qed
qed

lemma split_nl_join:
  "concat (map (\<lambda>l. l @ [CHR 0x0A]) (butlast (split_nl s))) @ last (split_nl s) = s"
proof (induction s)
  case Nil
  show ?case by simp
next
  case (Cons c cs)
  obtain l0 ls where sp: "split_nl cs = l0 # ls" by (rule split_nl_cases)
  with Cons show ?case by (cases ls) (auto split: if_splits)
qed

lemma split_nl_no_newline: "l \<in> set (split_nl s) \<Longrightarrow> CHR 0x0A \<notin> set l"
proof (induction s arbitrary: l)
  case Nil
  then show ?case by simp
next
  case (Cons c cs)
  obtain l0 ls where sp: "split_nl cs = l0 # ls" by (rule split_nl_cases)
  with Cons.prems Cons.IH [of l] Cons.IH [of l0] show ?case
    by (auto split: if_splits)
qed

lemma pop_split_nl:
  "pop (split_nl t) = (Some (last (split_nl t)), butlast (split_nl t))"
  by (simp add: pop_def split_nl_not_Nil)

lemma or_empty_Some: "or_empty (Some l) = l"
  by (simp add: or_empty_def)

lemma on_stdin_data_eq:
  "on_stdin_data rt s chunk =
     foldl (processLine rt) (s\<lparr>buffer := last (split_nl (buffer s @ chunk))\<rparr>)
       (butlast (split_nl (buffer s @ chunk)))"
  by (simp add: on_stdin_data_def pop_split_nl or_empty_Some)

lemma processLine_blank: "blank line \<Longrightarrow> processLine rt s line = s"
  by (simp add: processLine_def trim_empty_iff)

lemma on_stdin_end_eq:
  assumes "exited s = None" and "\<not> stdinClosed s"
  shows "on_stdin_end rt s =
     checkExit ((if blank (buffer s) then s else processLine rt s (buffer s))
                \<lparr>stdinClosed := True\<rparr>)"
  using assms processLine_open [of s rt "buffer s"]
  by (simp add: on_stdin_end_def trim_empty_iff Let_def)

text \<open>
  C8. The listener of input data appends the chunk to the buffer and splits the result at
  every newline: the segments contain no newline and, each but the last followed by a
  newline, make up the text again. It hands every segment but the last to
  \<^verbatim>\<open>processLine\<close>, in order, and keeps the last one as the new buffer. At the end of the
  input a buffer that is not blank is handed to \<^verbatim>\<open>processLine\<close> as a last line, the input
  is marked closed and the exit condition evaluated. A blank line changes nothing: no
  call, no diagnostic.
\<close>

theorem C8_line_framer:
  "on_stdin_data rt s chunk =
     foldl (processLine rt) (s\<lparr>buffer := last (split_nl (buffer s @ chunk))\<rparr>)
       (butlast (split_nl (buffer s @ chunk)))
   \<and> concat (map (\<lambda>l. l @ [CHR 0x0A]) (butlast (split_nl (buffer s @ chunk))))
       @ last (split_nl (buffer s @ chunk)) = buffer s @ chunk
   \<and> (\<forall>l \<in> set (split_nl (buffer s @ chunk)). CHR 0x0A \<notin> set l)
   \<and> (exited s = None \<and> \<not> stdinClosed s \<longrightarrow>
        on_stdin_end rt s =
          checkExit ((if blank (buffer s) then s else processLine rt s (buffer s))
                     \<lparr>stdinClosed := True\<rparr>))
   \<and> (blank line \<longrightarrow> processLine rt s line = s)"
  using on_stdin_data_eq [of rt s chunk] split_nl_join [of "buffer s @ chunk"]
    split_nl_no_newline [of _ "buffer s @ chunk"] on_stdin_end_eq [of s rt]
    processLine_blank [of line rt s]
  by blast


theorem C8_line_framer_witness:
  \<open>buffer (on_stdin_data sample_runtime (init sample_runtime) ''{"a":1}\<newline> \<newline>{"b'') = ''{"b''
   \<and> map req_body (calls (on_stdin_data sample_runtime (init sample_runtime)
         ''{"a":1}\<newline> \<newline>{"b'')) = [''{"a":1}'']
   \<and> map req_body (calls (on_stdin_end sample_runtime ((init sample_runtime)\<lparr>buffer := ''{"b":2}''\<rparr>)))
       = [''{"b":2}'']
   \<and> processLine sample_runtime (init sample_runtime) '' '' = init sample_runtime\<close>
proof -
  let ?s = \<open>init sample_runtime\<close>
  let ?c = \<open>''{"a":1}\<newline> \<newline>{"b''\<close>
  let ?t = \<open>?s\<lparr>buffer := ''{"b":2}''\<rparr>\<close>
  have sp: \<open>split_nl (buffer ?s @ ?c) = [''{"a":1}'', '' '', ''{"b'']\<close>
    by (simp add: init_def)
  have b: \<open>blank '' ''\<close> \<open>\<not> blank (buffer ?t)\<close>
    by (simp_all add: blank_def isWhiteSpace_def)
  have o: \<open>exited ?s = None \<and> \<not> stdinClosed ?s\<close> \<open>exited ?t = None \<and> \<not> stdinClosed ?t\<close>
    by (simp_all add: init_def)
  have d: \<open>on_stdin_data sample_runtime ?s ?c =
     foldl (processLine sample_runtime) (?s\<lparr>buffer := ''{"b''\<rparr>) [''{"a":1}'', '' '']\<close>
    using C8_line_framer [of sample_runtime ?s ?c] sp by simp
  have e: \<open>on_stdin_end sample_runtime ?t =
      checkExit ((processLine sample_runtime ?t ''{"b":2}'')\<lparr>stdinClosed := True\<rparr>)\<close>
    using C8_line_framer [of sample_runtime ?t] b(2) o(2) by simp
  have p: \<open>processLine sample_runtime ?s '' '' = ?s\<close>
    using C8_line_framer [of sample_runtime ?s _ \<open>'' ''\<close>] b(1) by blast
  show ?thesis
    unfolding d e p
    by (simp add: init_def processLine_def sendRequest_def checkExit_def trim_def
        isWhiteSpace_def sample_defs)
qed

lemma split_nl_single: "CHR 0x0A \<notin> set l \<Longrightarrow> split_nl l = [l]"
  by (induction l) auto

lemma last_split_nl_no_newline: "CHR 0x0A \<notin> set (last (split_nl t))"
  by (rule split_nl_no_newline [of _ t]) (simp add: split_nl_not_Nil)

lemma split_nl_append_butlast:
  "butlast (split_nl (a @ b)) = butlast (split_nl a) @ butlast (split_nl (last (split_nl a) @ b))"
  by (subst split_nl_append) (simp add: butlast_append split_nl_not_Nil)

lemma split_nl_append_last:
  "last (split_nl (a @ b)) = last (split_nl (last (split_nl a) @ b))"
  by (subst split_nl_append) (simp add: split_nl_not_Nil)

lemma handed_eq:
  "CHR 0x0A \<notin> set buf \<Longrightarrow>
   handed buf cs =
     butlast (split_nl (buf @ concat cs))
     @ (if blank (last (split_nl (buf @ concat cs))) then []
        else [last (split_nl (buf @ concat cs))])"
proof (induction cs arbitrary: buf)
  case Nil
  then show ?case by (simp add: split_nl_single trim_empty_iff)
next
  case (Cons c cs)
  have "handed buf (c # cs) =
          butlast (split_nl (buf @ c)) @ handed (last (split_nl (buf @ c))) cs"
    by (simp add: pop_split_nl or_empty_Some)
  also have "handed (last (split_nl (buf @ c))) cs =
     butlast (split_nl (last (split_nl (buf @ c)) @ concat cs))
     @ (if blank (last (split_nl (last (split_nl (buf @ c)) @ concat cs))) then []
        else [last (split_nl (last (split_nl (buf @ c)) @ concat cs))])"
    by (rule Cons.IH) (rule last_split_nl_no_newline)
  finally show ?case
    using split_nl_append_butlast [of "buf @ c" "concat cs"]
      split_nl_append_last [of "buf @ c" "concat cs"]
    by simp
qed

lemma processLine_buffer:
  "processLine rt (s\<lparr>buffer := b\<rparr>) l = (processLine rt s l)\<lparr>buffer := b\<rparr>"
  by (simp add: processLine_def checkExit_def sendRequest_def Let_def split: sum.splits)

lemma foldl_processLine_buffer:
  "foldl (processLine rt) (s\<lparr>buffer := b\<rparr>) ls = (foldl (processLine rt) s ls)\<lparr>buffer := b\<rparr>"
  by (induction ls arbitrary: s) (simp_all add: processLine_buffer)

lemma on_stdin_data_run:
  "CHR 0x0A \<notin> set (buffer s) \<Longrightarrow>
   foldl (on_stdin_data rt) s cs =
     (foldl (processLine rt) s (butlast (split_nl (buffer s @ concat cs))))
     \<lparr>buffer := last (split_nl (buffer s @ concat cs))\<rparr>"
proof (induction cs arbitrary: s)
  case Nil
  then show ?case by (simp add: split_nl_single)
next
  case (Cons c cs)
  let ?r = "last (split_nl (buffer s @ c))"
  let ?L = "butlast (split_nl (buffer s @ c))"
  let ?s1 = "on_stdin_data rt s c"
  have s1: "?s1 = (foldl (processLine rt) s ?L)\<lparr>buffer := ?r\<rparr>"
    by (simp add: on_stdin_data_eq foldl_processLine_buffer)
  then have b1: "buffer ?s1 = ?r" by simp
  then have "CHR 0x0A \<notin> set (buffer ?s1)" by (simp add: last_split_nl_no_newline)
  then have "foldl (on_stdin_data rt) ?s1 cs =
     (foldl (processLine rt) ?s1 (butlast (split_nl (buffer ?s1 @ concat cs))))
     \<lparr>buffer := last (split_nl (buffer ?s1 @ concat cs))\<rparr>"
    by (rule Cons.IH)
  also have "\<dots> = (foldl (processLine rt) ((foldl (processLine rt) s ?L)\<lparr>buffer := ?r\<rparr>)
                      (butlast (split_nl (?r @ concat cs))))
     \<lparr>buffer := last (split_nl (?r @ concat cs))\<rparr>"
    unfolding b1 unfolding s1 by (rule refl)
  also have "\<dots> = (foldl (processLine rt) s (?L @ butlast (split_nl (?r @ concat cs))))
     \<lparr>buffer := last (split_nl (?r @ concat cs))\<rparr>"
    by (simp add: foldl_processLine_buffer)
  finally show ?case
    using split_nl_append_butlast [of "buffer s @ c" "concat cs"]
      split_nl_append_last [of "buffer s @ c" "concat cs"]
    by simp
qed

lemma processLine_fresh: "fresh s \<Longrightarrow> fresh (processLine rt s l)"
  by (simp add: processLine_def fresh_def checkExit_fields sendRequest_fields split: sum.splits)

lemma foldl_processLine_fresh: "fresh s \<Longrightarrow> fresh (foldl (processLine rt) s ls)"
  by (induction ls arbitrary: s) (simp_all add: processLine_fresh)

lemma idle_exit_fresh:
  assumes "fresh s"
  shows "idle_exit (checkExit s) = checkExit s"
proof (cases "pendingRequests s = 0")
  case True
  then show ?thesis by (simp add: idle_exit_def checkExit_def)
next
  case False
  with assms obtain c where "c \<in> set (calls s)" and "\<not> closed c"
    by (cases "calls s") (auto simp add: fresh_def)
  then have "\<not> list_all closed (calls s)" by (auto simp add: list_all_iff)
  then show ?thesis by (simp add: idle_exit_def checkExit_fields)
qed

lemma fire_data_run:
  "exited s = None \<Longrightarrow> \<not> stdinClosed s \<Longrightarrow>
   foldl (fire rt) s (map StdinData cs) = foldl (on_stdin_data rt) s cs"
proof (induction cs arbitrary: s)
  case Nil
  show ?case by simp
next
  case (Cons c cs)
  from Cons.prems on_stdin_data_open [of s rt c]
  have "foldl (fire rt) (on_stdin_data rt s c) (map StdinData cs)
        = foldl (on_stdin_data rt) (on_stdin_data rt s c) cs"
    by (intro Cons.IH) simp_all
  with Cons.prems show ?case by (simp add: fire_StdinData)
qed

lemma run_chunks:
  "run rt (map StdinData cs @ [StdinEnd]) =
     checkExit ((foldl (processLine rt) (init rt) (handed [] cs))
                \<lparr>buffer := last (split_nl (concat cs)), stdinClosed := True\<rparr>)"
proof -
  let ?L = "butlast (split_nl (concat cs))"
  let ?r = "last (split_nl (concat cs))"
  let ?s = "(foldl (processLine rt) (init rt) ?L)\<lparr>buffer := ?r\<rparr>"
  have i: "exited (init rt) = None" "\<not> stdinClosed (init rt)" "buffer (init rt) = []"
    by (simp_all add: init_def)
  have d: "foldl (fire rt) (init rt) (map StdinData cs) = ?s"
    using fire_data_run [of "init rt" rt cs] on_stdin_data_run [of "init rt" rt cs] i
    by simp
  have o: "exited ?s = None \<and> \<not> stdinClosed ?s"
    using foldl_processLine_open [of "init rt" rt ?L] i by simp
  then have e: "on_stdin_end rt ?s =
      checkExit ((if blank ?r then ?s else processLine rt ?s ?r)\<lparr>stdinClosed := True\<rparr>)"
    using on_stdin_end_eq [of ?s rt] by simp
  have h: "handed [] cs = ?L @ (if blank ?r then [] else [?r])"
    using handed_eq [of "[]" cs] by simp
  have "fresh (foldl (processLine rt) (init rt) (handed [] cs))"
    by (rule foldl_processLine_fresh) (simp add: fresh_def init_def)
  then have f: "fresh ((foldl (processLine rt) (init rt) (handed [] cs))
                \<lparr>buffer := ?r, stdinClosed := True\<rparr>)"
    by (simp add: fresh_def)
  have "run rt (map StdinData cs @ [StdinEnd]) = idle_exit (on_stdin_end rt ?s)"
    using o by (simp add: run_def d fire_def)
  also have "on_stdin_end rt ?s = checkExit ((foldl (processLine rt) (init rt) (handed [] cs))
                \<lparr>buffer := ?r, stdinClosed := True\<rparr>)"
    unfolding e h by (simp add: processLine_buffer)
  finally show ?thesis by (simp only: idle_exit_fresh [OF f])
qed

text \<open>
  C10. The lines handed to \<^verbatim>\<open>processLine\<close> while chunks arrive and the input then ends
  depend only on the concatenation of the chunks: two sequences of chunks with the same
  concatenation hand over the same lines in the same order, and leave the process in the
  same state. The run on the chunks is \<^verbatim>\<open>processLine\<close> applied, from the initial state, to
  these lines in order, followed by the closing of the input.
\<close>

theorem C10_chunking_independent:
  "(concat cs1 = concat cs2 \<longrightarrow>
      handed [] cs1 = handed [] cs2
      \<and> run rt (map StdinData cs1 @ [StdinEnd]) = run rt (map StdinData cs2 @ [StdinEnd]))
   \<and> run rt (map StdinData cs1 @ [StdinEnd]) =
       checkExit ((foldl (processLine rt) (init rt) (handed [] cs1))
                  \<lparr>buffer := last (split_nl (concat cs1)), stdinClosed := True\<rparr>)"
proof -
  have "handed [] cs1 = handed [] cs2" if "concat cs1 = concat cs2"
    using that handed_eq [of "[]" cs1] handed_eq [of "[]" cs2] by simp
  moreover have "run rt (map StdinData cs1 @ [StdinEnd]) = run rt (map StdinData cs2 @ [StdinEnd])"
    if "concat cs1 = concat cs2"
    using that calculation run_chunks [of rt cs1] run_chunks [of rt cs2] by simp
  ultimately show ?thesis using run_chunks [of rt cs1] by blast
qed


theorem C10_chunking_independent_witness:
  \<open>handed [] [''{"a":1}\<newline>{"b'', ''":2}''] = handed [] [''{"a"'', '':1}\<newline>{"b":2}'']
   \<and> run sample_runtime (map StdinData [''{"a":1}\<newline>{"b'', ''":2}''] @ [StdinEnd])
     = run sample_runtime (map StdinData [''{"a"'', '':1}\<newline>{"b":2}''] @ [StdinEnd])\<close>
proof -
  have \<open>concat [''{"a":1}\<newline>{"b'', ''":2}''] = concat [''{"a"'', '':1}\<newline>{"b":2}'']\<close>
    by simp
  with C10_chunking_independent
    [of \<open>[''{"a":1}\<newline>{"b'', ''":2}'']\<close> \<open>[''{"a"'', '':1}\<newline>{"b":2}'']\<close> sample_runtime]
  show ?thesis by blast
qed

subsection \<open>Dispatch without serialisation\<close>

lemma split_nl_line:
  "CHR 0x0A \<notin> set l \<Longrightarrow> split_nl (l @ CHR 0x0A # t) = l # split_nl t"
  by (induction l) auto

lemma processLine_valid:
  "exited s = None \<Longrightarrow> \<not> blank l \<Longrightarrow> JSON_parse rt l = Inr v \<Longrightarrow>
   processLine rt s l = sendRequest rt s v"
  by (simp add: processLine_def trim_empty_iff)

lemma data_one_line:
  assumes "exited s = None" "\<not> stdinClosed s" "buffer s = []"
    and "CHR 0x0A \<notin> set l" "\<not> blank l" "JSON_parse rt l = Inr v"
  shows "fire rt s (StdinData (l @ [CHR 0x0A])) = sendRequest rt s v"
proof -
  have "split_nl (buffer s @ l @ [CHR 0x0A]) = [l, []]"
    using assms(3,4) by (simp add: split_nl_line)
  then have "fire rt s (StdinData (l @ [CHR 0x0A])) = sendRequest rt (s\<lparr>buffer := []\<rparr>) v"
    using assms by (simp add: fire_StdinData on_stdin_data_eq processLine_valid)
  moreover have "s\<lparr>buffer := []\<rparr> = s"
    using assms(3) by simp
  ultimately show ?thesis by (simp only:)
qed

lemma data_two_lines:
  assumes "exited s = None" "\<not> stdinClosed s" "buffer s = []"
    and "CHR 0x0A \<notin> set l1" "\<not> blank l1" "JSON_parse rt l1 = Inr v1"
    and "CHR 0x0A \<notin> set l2" "\<not> blank l2" "JSON_parse rt l2 = Inr v2"
  shows "fire rt s (StdinData (l1 @ CHR 0x0A # l2 @ [CHR 0x0A]))
         = sendRequest rt (sendRequest rt s v1) v2"
proof -
  have "split_nl (buffer s @ l1 @ CHR 0x0A # l2 @ [CHR 0x0A]) = [l1, l2, []]"
    using assms(3,4,7) by (simp add: split_nl_line)
  then have "fire rt s (StdinData (l1 @ CHR 0x0A # l2 @ [CHR 0x0A]))
         = sendRequest rt (sendRequest rt (s\<lparr>buffer := []\<rparr>) v1) v2"
    using assms
    by (simp add: fire_StdinData on_stdin_data_eq processLine_valid sendRequest_fields)
  moreover have "s\<lparr>buffer := []\<rparr> = s"
    using assms(3) by simp
  ultimately show ?thesis by (simp only:)
qed

text \<open>
  C9. Two lines that parse, arriving before any response (in two chunks or in one), leave
  two calls awaiting their response and \<^verbatim>\<open>pendingRequests\<close> at 2, the first call being
  pending already when the second is issued; the process has not ended then. In whatever
  follows, it has ended with status 0 only in states where the input has ended and either
  \<^verbatim>\<open>pendingRequests\<close> is 0 or the runtime has closed every call; and where what follows is
  orderly, only in states where \<^verbatim>\<open>pendingRequests\<close> is 0.
\<close>

theorem C9_dispatch_not_serialized:
  assumes "CHR 0x0A \<notin> set l1" and "\<not> blank l1" and "JSON_parse rt l1 = Inr v1"
    and "CHR 0x0A \<notin> set l2" and "\<not> blank l2" and "JSON_parse rt l2 = Inr v2"
  shows "pendingRequests (run rt [StdinData (l1 @ [CHR 0x0A])]) = 1
   \<and> pendingRequests (run rt [StdinData (l1 @ [CHR 0x0A]), StdinData (l2 @ [CHR 0x0A])]) = 2
   \<and> map phase (calls (run rt [StdinData (l1 @ [CHR 0x0A]), StdinData (l2 @ [CHR 0x0A])]))
       = [Awaiting, Awaiting]
   \<and> map req_body (calls (run rt [StdinData (l1 @ [CHR 0x0A]), StdinData (l2 @ [CHR 0x0A])]))
       = [JSON_stringify rt v1, JSON_stringify rt v2]
   \<and> exited (run rt [StdinData (l1 @ [CHR 0x0A]), StdinData (l2 @ [CHR 0x0A])]) = None
   \<and> run rt [StdinData (l1 @ CHR 0x0A # l2 @ [CHR 0x0A])]
       = run rt [StdinData (l1 @ [CHR 0x0A]), StdinData (l2 @ [CHR 0x0A])]
   \<and> (\<forall>es. exited (run rt ([StdinData (l1 @ [CHR 0x0A]), StdinData (l2 @ [CHR 0x0A])] @ es))
             = Some 0 \<longrightarrow>
           stdinClosed (run rt ([StdinData (l1 @ [CHR 0x0A]), StdinData (l2 @ [CHR 0x0A])] @ es))
           \<and> (pendingRequests
                (run rt ([StdinData (l1 @ [CHR 0x0A]), StdinData (l2 @ [CHR 0x0A])] @ es)) = 0
               \<or> list_all closed
                (calls (run rt
                  ([StdinData (l1 @ [CHR 0x0A]), StdinData (l2 @ [CHR 0x0A])] @ es)))))
   \<and> (\<forall>es. orderly rt (init rt)
              ([StdinData (l1 @ [CHR 0x0A]), StdinData (l2 @ [CHR 0x0A])] @ es)
           \<and> exited (run rt ([StdinData (l1 @ [CHR 0x0A]), StdinData (l2 @ [CHR 0x0A])] @ es))
               = Some 0 \<longrightarrow>
           pendingRequests
             (run rt ([StdinData (l1 @ [CHR 0x0A]), StdinData (l2 @ [CHR 0x0A])] @ es)) = 0)"
proof -
  let ?e1 = "StdinData (l1 @ [CHR 0x0A])" and ?e2 = "StdinData (l2 @ [CHR 0x0A])"
  have i: "exited (init rt) = None" "\<not> stdinClosed (init rt)" "buffer (init rt) = []"
    "pendingRequests (init rt) = 0" "calls (init rt) = []"
    by (simp_all add: init_def)
  have r1: "run rt [?e1] = sendRequest rt (init rt) v1"
    using data_one_line [of "init rt" l1 rt v1] i assms by (simp add: run_def)
  have "fire rt (sendRequest rt (init rt) v1) ?e2
        = sendRequest rt (sendRequest rt (init rt) v1) v2"
    using i assms by (intro data_one_line) (simp_all add: sendRequest_fields)
  with r1 have r2: "run rt [?e1, ?e2] = sendRequest rt (sendRequest rt (init rt) v1) v2"
    by (simp add: run_def)
  have r12: "run rt [StdinData (l1 @ CHR 0x0A # l2 @ [CHR 0x0A])]
             = sendRequest rt (sendRequest rt (init rt) v1) v2"
    using data_two_lines [of "init rt" l1 rt v1 l2 v2] i assms by (simp add: run_def)
  have later: "exited (run rt ([?e1, ?e2] @ es)) = Some 0 \<longrightarrow>
               stdinClosed (run rt ([?e1, ?e2] @ es))
               \<and> (pendingRequests (run rt ([?e1, ?e2] @ es)) = 0
                   \<or> list_all closed (calls (run rt ([?e1, ?e2] @ es))))" for es
    using run_sound [of rt "[?e1, ?e2] @ es"] by (auto simp add: exit_sound_def)
  have later_orderly: "orderly rt (init rt) ([?e1, ?e2] @ es)
               \<and> exited (run rt ([?e1, ?e2] @ es)) = Some 0 \<longrightarrow>
               pendingRequests (run rt ([?e1, ?e2] @ es)) = 0" for es
  proof
    assume a: "orderly rt (init rt) ([?e1, ?e2] @ es)
               \<and> exited (run rt ([?e1, ?e2] @ es)) = Some 0"
    then have "steady (run rt ([?e1, ?e2] @ es))" by (intro run_steady) simp
    with a show "pendingRequests (run rt ([?e1, ?e2] @ es)) = 0"
      by (simp add: steady_def exit_ok_def split: if_splits)
  qed
  have first: "pendingRequests (run rt [?e1]) = 1
     \<and> pendingRequests (run rt [?e1, ?e2]) = 2
     \<and> map phase (calls (run rt [?e1, ?e2])) = [Awaiting, Awaiting]
     \<and> map req_body (calls (run rt [?e1, ?e2])) = [JSON_stringify rt v1, JSON_stringify rt v2]
     \<and> exited (run rt [?e1, ?e2]) = None
     \<and> run rt [StdinData (l1 @ CHR 0x0A # l2 @ [CHR 0x0A])] = run rt [?e1, ?e2]"
    unfolding r12 unfolding r1 r2
    using i by (simp add: sendRequest_fields)
  from first later later_orderly show ?thesis by blast
qed

theorem C9_dispatch_not_serialized_witness:
  \<open>pendingRequests (run sample_runtime [StdinData ''{"id":1}\<newline>'', StdinData ''{"id":2}\<newline>'']) = 2
   \<and> exited (run sample_runtime [StdinData ''{"id":1}\<newline>'', StdinData ''{"id":2}\<newline>'']) = None
   \<and> map req_body (calls (run sample_runtime [StdinData ''{"id":1}\<newline>'', StdinData ''{"id":2}\<newline>'']))
       = [''{"id":1}'', ''{"id":2}'']
   \<and> pendingRequests (run sample_runtime
        ([StdinData ''{"id":1}\<newline>'', StdinData ''{"id":2}\<newline>'']
         @ [StdinEnd, ReqError 1 ''aborted'', Response 0 None None, ResEnd 0])) = 0
   \<and> stdinClosed (run sample_runtime
        ([StdinData ''{"id":1}\<newline>'', StdinData ''{"id":2}\<newline>'']
         @ [StdinEnd, ReqError 1 ''aborted'', Response 0 None None, ResEnd 0]))\<close>
proof -
  let ?two = \<open>[StdinData ''{"id":1}\<newline>'', StdinData ''{"id":2}\<newline>'']\<close>
  let ?es = \<open>[StdinEnd, ReqError 1 ''aborted'', Response 0 None None, ResEnd 0]\<close>
  have h: \<open>CHR 0x0A \<notin> set ''{"id":1}''\<close> \<open>\<not> blank ''{"id":1}''\<close>
    \<open>JSON_parse sample_runtime ''{"id":1}'' = Inr (JObject [(''id'', JNumber 1)])\<close>
    \<open>CHR 0x0A \<notin> set ''{"id":2}''\<close> \<open>\<not> blank ''{"id":2}''\<close>
    \<open>JSON_parse sample_runtime ''{"id":2}'' = Inr (JObject [(''id'', JNumber 2)])\<close>
    by (simp_all add: blank_def isWhiteSpace_def sample_defs)
  have s: \<open>JSON_stringify sample_runtime (JObject [(''id'', JNumber 1)]) = ''{"id":1}''\<close>
    \<open>JSON_stringify sample_runtime (JObject [(''id'', JNumber 2)]) = ''{"id":2}''\<close>
    by (simp_all add: sample_defs)
  have o: \<open>orderly sample_runtime (init sample_runtime) (?two @ ?es)\<close>
    by (simp add: handler_defs sample_defs)
  have x: \<open>exited (run sample_runtime (?two @ ?es)) = Some 0\<close>
    by (simp add: handler_defs sample_defs decode_def)
  note t = C9_dispatch_not_serialized [OF h]
  from t have \<open>\<forall>es. orderly sample_runtime (init sample_runtime) (?two @ es)
      \<and> exited (run sample_runtime (?two @ es)) = Some 0 \<longrightarrow>
      pendingRequests (run sample_runtime (?two @ es)) = 0\<close>
    by simp
  with o x have p: \<open>pendingRequests (run sample_runtime (?two @ ?es)) = 0\<close>
    by blast
  from t have \<open>\<forall>es. exited (run sample_runtime (?two @ es)) = Some 0 \<longrightarrow>
      stdinClosed (run sample_runtime (?two @ es))\<close>
    by simp
  with x have c: \<open>stdinClosed (run sample_runtime (?two @ ?es))\<close>
    by blast
  from t s p c show ?thesis by simp
qed

text \<open>
  After the two lines the input ends and both responses are closed before their end: the
  process ends with status 0, and the counter is still 2.
\<close>

theorem C9_counterexample:
  \<open>exited (run sample_runtime
      [StdinData ''{"id":1}\<newline>'', StdinData ''{"id":2}\<newline>'', StdinEnd,
       Response 0 None None, Response 1 None None, Closed 0, Closed 1]) = Some 0
   \<and> pendingRequests (run sample_runtime
      [StdinData ''{"id":1}\<newline>'', StdinData ''{"id":2}\<newline>'', StdinEnd,
       Response 0 None None, Response 1 None None, Closed 0, Closed 1]) = 2\<close>
  by (simp add: handler_defs sample_defs)

subsection \<open>The session token\<close>

lemma session_header_request:
  "sid \<noteq> Some [] \<Longrightarrow>
   map_of (request_headers sid) ''Mcp-Session-Id'' = sid"
  by (cases sid) (simp_all add: request_headers_def)

lemma issued_with_refl: "issued_with s s"
  by (simp add: issued_with_def)

lemma issued_with_trans: "issued_with s s1 \<Longrightarrow> issued_with s1 s2 \<Longrightarrow> issued_with s s2"
  by (auto simp add: issued_with_def)

lemma processLine_issued: "issued_with s (processLine rt s l)"
  by (simp add: processLine_def issued_with_def checkExit_fields sendRequest_fields
      split: sum.splits)

lemma foldl_processLine_issued: "issued_with s (foldl (processLine rt) s ls)"
proof (induction ls arbitrary: s)
  case Nil
  show ?case by (simp add: issued_with_refl)
next
  case (Cons l ls)
  from processLine_issued [of s rt l] Cons [of "processLine rt s l"]
  show ?case by (simp add: issued_with_trans)
qed

lemma on_stdin_data_issued: "issued_with s (on_stdin_data rt s chunk)"
  using foldl_processLine_issued [of "s\<lparr>buffer := last (split_nl (buffer s @ chunk))\<rparr>" rt
      "butlast (split_nl (buffer s @ chunk))"]
  by (simp add: on_stdin_data_eq issued_with_def)

lemma on_stdin_end_issued: "issued_with s (on_stdin_end rt s)"
  using processLine_issued [of s rt "buffer s"]
  by (simp add: on_stdin_end_def Let_def issued_with_def checkExit_fields)

lemma issued_with_new:
  "issued_with s s' \<Longrightarrow> token_ok s \<Longrightarrow>
   (\<forall>c \<in> set (drop (length (calls s)) (calls s')). session_header c = sessionId s)
   \<and> take (length (calls s)) (calls s') = calls s"
  by (auto simp add: issued_with_def token_ok_def session_header_def session_header_request)

lemma session_header_phase: "session_header (c\<lparr>phase := p\<rparr>) = session_header c"
  by (simp add: session_header_def)

lemma map_session_header_update:
  "map session_header (xs[i := (xs ! i)\<lparr>phase := p\<rparr>]) = map session_header xs"
proof (cases "i < length xs")
  case True
  then show ?thesis
    by (auto simp add: list_eq_iff_nth_eq nth_list_update session_header_phase)
next
  case False
  then have "xs[i := (xs ! i)\<lparr>phase := p\<rparr>] = xs"
    by (intro list_update_beyond) simp
  then show ?thesis by (simp only:)
qed

lemma on_response_headers:
  "map session_header (calls (on_response s i sid ct)) = map session_header (calls s)"
  by (simp add: on_response_def Let_def map_session_header_update split: option.splits)

lemma on_res_data_headers:
  "map session_header (calls (on_res_data s i chunk)) = map session_header (calls s)"
  by (simp add: on_res_data_def map_session_header_update split: phase.splits)

lemma on_res_end_headers:
  "map session_header (calls (on_res_end rt s i)) = map session_header (calls s)"
  by (simp add: on_res_end_def resume_resolved_def Let_def checkExit_fields
      write_responses_fields map_session_header_update split: phase.splits stream.splits)

lemma on_req_error_headers:
  "map session_header (calls (on_req_error s i m)) = map session_header (calls s)"
  by (simp add: on_req_error_def resume_rejected_def Let_def checkExit_fields
      map_session_header_update split: phase.splits)

lemma on_closed_headers:
  "map session_header (calls (on_closed s i)) = map session_header (calls s)"
proof (cases "i < length (calls s)")
  case True
  then show ?thesis
    by (auto simp add: on_closed_def list_eq_iff_nth_eq nth_list_update session_header_def)
next
  case False
  then have "(calls s)[i := (calls s ! i)\<lparr>closed := True\<rparr>] = calls s"
    by (intro list_update_beyond) simp
  then show ?thesis by (simp add: on_closed_def)
qed

lemma same_headers_new:
  assumes "map session_header (calls s') = map session_header (calls s)"
  shows "(\<forall>c \<in> set (drop (length (calls s)) (calls s')). session_header c = sessionId s)
   \<and> map session_header (take (length (calls s)) (calls s')) = map session_header (calls s)"
proof -
  from assms have "length (calls s') = length (calls s)"
    by (rule map_eq_imp_length_eq)
  with assms show ?thesis by simp
qed

lemma fire_calls:
  assumes "token_ok s"
  shows "(\<forall>c \<in> set (drop (length (calls s)) (calls (fire rt s e))). session_header c = sessionId s)
   \<and> map session_header (take (length (calls s)) (calls (fire rt s e)))
       = map session_header (calls s)"
proof (cases "enabled s e")
  case False
  then show ?thesis by (simp add: fire_def)
next
  case True
  then have f: "calls (fire rt s e) = calls (handle rt s e)"
    by (simp add: fire_def idle_exit_fields)
  show ?thesis
  proof (cases e)
    case (StdinData chunk)
    with issued_with_new [OF on_stdin_data_issued assms, of rt chunk]
    show ?thesis using f by simp
  next
    case StdinEnd
    with issued_with_new [OF on_stdin_end_issued assms, of rt]
    show ?thesis using f by simp
  next
    case (Response i sid ct)
    with same_headers_new [OF on_response_headers, of s i sid ct]
    show ?thesis using f by simp
  next
    case (ResData i chunk)
    with same_headers_new [OF on_res_data_headers, of s i chunk]
    show ?thesis using f by simp
  next
    case (ResEnd i)
    with same_headers_new [OF on_res_end_headers, of s rt i]
    show ?thesis using f by simp
  next
    case (ReqError i m)
    with same_headers_new [OF on_req_error_headers, of s i m]
    show ?thesis using f by simp
  next
    case (Closed i)
    with same_headers_new [OF on_closed_headers, of s i]
    show ?thesis using f by simp
  qed
qed

lemma on_stdin_data_sessionId: "sessionId (on_stdin_data rt s chunk) = sessionId s"
  using on_stdin_data_issued [of s rt chunk] by (simp add: issued_with_def)

lemma on_stdin_end_sessionId: "sessionId (on_stdin_end rt s) = sessionId s"
  using on_stdin_end_issued [of s rt] by (simp add: issued_with_def)

lemma on_response_sessionId:
  "sessionId (on_response s i sid ct) =
     (case sid of None \<Rightarrow> sessionId s | Some v \<Rightarrow> if v \<noteq> [] then Some v else sessionId s)"
  by (simp add: on_response_def Let_def split: option.splits)

lemma on_res_data_sessionId: "sessionId (on_res_data s i chunk) = sessionId s"
  by (simp add: on_res_data_def split: phase.splits)

lemma on_res_end_sessionId: "sessionId (on_res_end rt s i) = sessionId s"
  by (simp add: on_res_end_def resume_resolved_def Let_def checkExit_fields
      write_responses_fields split: phase.splits stream.splits)

lemma on_req_error_sessionId: "sessionId (on_req_error s i m) = sessionId s"
  by (simp add: on_req_error_def resume_rejected_def Let_def checkExit_fields
      split: phase.splits)

lemma on_closed_sessionId: "sessionId (on_closed s i) = sessionId s"
  by (simp add: on_closed_def)

lemmas handler_sessionId =
  on_stdin_data_sessionId on_stdin_end_sessionId on_response_sessionId on_res_data_sessionId
  on_res_end_sessionId on_req_error_sessionId on_closed_sessionId idle_exit_fields

lemma fire_token_ok: "token_ok s \<Longrightarrow> token_ok (fire rt s e)"
  by (cases e) (simp_all add: fire_def token_ok_def handler_sessionId split: option.splits)

lemma run_token_ok: "token_ok (run rt es)"
proof (induction es rule: rev_induct)
  case Nil
  show ?case by (simp add: run_Nil init_def token_ok_def)
next
  case (snoc e es)
  then show ?case by (simp add: run_snoc fire_token_ok)
qed

lemma fire_keeps_token: "sessionId s \<noteq> None \<Longrightarrow> sessionId (fire rt s e) \<noteq> None"
  by (cases e) (auto simp add: fire_def handler_sessionId split: option.splits)

lemma fire_same_token:
  "(\<forall>i v ct. e = Response i (Some v) ct \<longrightarrow> v = []) \<Longrightarrow>
   sessionId (fire rt s e) = sessionId s"
  by (cases e) (auto simp add: fire_def handler_sessionId split: option.splits)

lemma fire_sets_token:
  "enabled s (Response i (Some v) ct) \<Longrightarrow> v \<noteq> [] \<Longrightarrow>
   sessionId (fire rt s (Response i (Some v) ct)) = Some v"
  by (simp add: fire_def handler_sessionId)

text \<open>
  C4. In every state the process reaches: a response that carries a
  non-empty session header sets the token to that value, whatever the token was; no
  event clears a token that is set, and an event other than such a response (a response
  without the header, or with an empty one, among them) leaves the token as it is; every
  call issued by an event carries the token of that moment as its session header, and
  no session header when there is no token; the headers of the calls issued before are
  not changed.
\<close>

theorem C4_session_token:
  "(enabled (run rt es) (Response i (Some v) ct) \<and> v \<noteq> [] \<longrightarrow>
      sessionId (fire rt (run rt es) (Response i (Some v) ct)) = Some v)
   \<and> (sessionId (run rt es) \<noteq> None \<longrightarrow> sessionId (fire rt (run rt es) e) \<noteq> None)
   \<and> ((\<forall>j w ct'. e = Response j (Some w) ct' \<longrightarrow> w = []) \<longrightarrow>
        sessionId (fire rt (run rt es) e) = sessionId (run rt es))
   \<and> (\<forall>c \<in> set (drop (length (calls (run rt es))) (calls (fire rt (run rt es) e))).
        session_header c = sessionId (run rt es))
   \<and> map session_header (take (length (calls (run rt es))) (calls (fire rt (run rt es) e)))
       = map session_header (calls (run rt es))"
  using fire_sets_token [of "run rt es" i v ct rt] fire_keeps_token [of "run rt es" rt e]
    fire_same_token [of e rt "run rt es"] fire_calls [OF run_token_ok, of rt es rt e]
  by blast


theorem C4_session_token_witness:
  \<open>sessionId (run sample_runtime
       [StdinData ''{"id":1}\<newline>{"id":2}\<newline>'', Response 0 (Some ''S1'') None]) = Some ''S1''
   \<and> sessionId (run sample_runtime
       [StdinData ''{"id":1}\<newline>{"id":2}\<newline>'', Response 0 (Some ''S1'') None,
        Response 1 None None]) = Some ''S1''
   \<and> map session_header (calls (run sample_runtime
       [StdinData ''{"id":1}\<newline>{"id":2}\<newline>'', Response 0 (Some ''S1'') None,
        Response 1 None None, StdinData ''{"a":1}\<newline>'']))
     = [None, None, Some ''S1'']\<close>
proof -
  let ?es0 = \<open>[StdinData ''{"id":1}\<newline>{"id":2}\<newline>'']\<close>
  let ?r0 = \<open>Response 0 (Some ''S1'') None\<close>
  let ?r1 = \<open>Response 1 None None\<close>
  let ?d = \<open>StdinData ''{"a":1}\<newline>''\<close>
  have en: \<open>enabled (run sample_runtime ?es0) ?r0 \<and> ''S1'' \<noteq> []\<close>
    by (simp add: handler_defs sample_defs)
  have \<open>sessionId (fire sample_runtime (run sample_runtime ?es0) ?r0) = Some ''S1''\<close>
    using en C4_session_token [of sample_runtime ?es0 0 \<open>''S1''\<close> None]
    by blast
  then have a: \<open>sessionId (run sample_runtime (?es0 @ [?r0])) = Some ''S1''\<close>
    by (simp only: run_snoc)
  have \<open>\<forall>j w ct'. ?r1 = Response j (Some w) ct' \<longrightarrow> w = []\<close>
    by simp
  with C4_session_token [of sample_runtime \<open>?es0 @ [?r0]\<close> _ _ _ ?r1]
  have \<open>sessionId (fire sample_runtime (run sample_runtime (?es0 @ [?r0])) ?r1)
        = sessionId (run sample_runtime (?es0 @ [?r0]))\<close>
    by blast
  then have \<open>sessionId (run sample_runtime ((?es0 @ [?r0]) @ [?r1]))
        = sessionId (run sample_runtime (?es0 @ [?r0]))\<close>
    by (simp only: run_snoc [of sample_runtime \<open>?es0 @ [?r0]\<close> ?r1])
  with a have b: \<open>sessionId (run sample_runtime (?es0 @ [?r0, ?r1])) = Some ''S1''\<close>
    by simp
  have old: \<open>map session_header (calls (run sample_runtime (?es0 @ [?r0, ?r1]))) = [None, None]\<close>
    by (simp add: handler_defs sample_defs session_header_def)
  have len: \<open>length (calls (run sample_runtime (?es0 @ [?r0, ?r1]))) = 2\<close>
    \<open>length (calls (run sample_runtime ((?es0 @ [?r0, ?r1]) @ [?d]))) = 3\<close>
    by (simp_all add: handler_defs sample_defs)
  from len obtain c0 c1 c2 where
    cs: \<open>calls (run sample_runtime ((?es0 @ [?r0, ?r1]) @ [?d])) = [c0, c1, c2]\<close>
    by (auto simp add: length_Suc_conv eval_nat_numeral)
  from C4_session_token [of sample_runtime \<open>?es0 @ [?r0, ?r1]\<close> _ _ _ ?d] b old
  have \<open>(\<forall>c \<in> set (drop 2 (calls (run sample_runtime ((?es0 @ [?r0, ?r1]) @ [?d])))).
            session_header c = Some ''S1'')
        \<and> map session_header (take 2 (calls (run sample_runtime ((?es0 @ [?r0, ?r1]) @ [?d]))))
            = [None, None]\<close>
    unfolding run_snoc [of sample_runtime \<open>?es0 @ [?r0, ?r1]\<close> ?d] len(1) by simp
  with cs have \<open>map session_header
      (calls (run sample_runtime ((?es0 @ [?r0, ?r1]) @ [?d]))) = [None, None, Some ''S1'']\<close>
    by simp
  with a b show ?thesis by simp
qed

text \<open>
  A response whose session header is present with the empty value is enabled like any
  other, and it neither sets the token nor replaces a token that is set.
\<close>

theorem C4_counterexample:
  \<open>enabled (run sample_runtime [StdinData ''{"id":1}\<newline>{"id":2}\<newline>''])
      (Response 0 (Some []) None)
   \<and> sessionId (run sample_runtime
        [StdinData ''{"id":1}\<newline>{"id":2}\<newline>'', Response 0 (Some []) None]) \<noteq> Some []
   \<and> enabled (run sample_runtime
        [StdinData ''{"id":1}\<newline>{"id":2}\<newline>'', Response 0 (Some ''S1'') None])
      (Response 1 (Some []) None)
   \<and> sessionId (run sample_runtime
        [StdinData ''{"id":1}\<newline>{"id":2}\<newline>'', Response 0 (Some ''S1'') None,
         Response 1 (Some []) None]) \<noteq> Some []\<close>
  by (simp add: handler_defs sample_defs)

end
